theory Spec2Isabelle
  imports Complex_Main
begin

section \<open>The gesture tracker of tracker\_worker.py\<close>

text \<open>
  Python floats are idealised as \<^typ>\<open>real\<close>: \<open>math.sqrt\<close> is \<^const>\<open>sqrt\<close>, the
  thresholds are the decimal fractions written in the source, and \<open>time.time()\<close> is a real
  number read once per loop iteration.
\<close>

subsection \<open>EMAFilter\<close>

text \<open>A run-time error of the interpreter is a value; it ends the worker thread.\<close>

datatype error = TypeError

record EMAFilter =
  alpha :: real
  last_x :: "real option"
  last_y :: "real option"

definition EMAFilter_init :: "real \<Rightarrow> EMAFilter" where
  "EMAFilter_init a = \<lparr>alpha = a, last_x = None, last_y = None\<rparr>"

text \<open>
  \<open>EMAFilter.filter\<close>. Only \<open>last_x\<close> is tested against \<open>None\<close>; in the other branch
  a \<open>last_y\<close> that is still \<open>None\<close> makes the multiplication raise.
\<close>

definition filter_ema :: "EMAFilter \<Rightarrow> real \<Rightarrow> real \<Rightarrow> error + (EMAFilter \<times> real \<times> real)" where
  "filter_ema f new_x new_y =
     (case last_x f of
        None \<Rightarrow> Inr (f\<lparr>last_x := Some new_x, last_y := Some new_y\<rparr>, new_x, new_y)
      | Some lx \<Rightarrow>
          (let sx = alpha f * new_x + (1 - alpha f) * lx in
           case last_y f of
             None \<Rightarrow> Inl TypeError
           | Some ly \<Rightarrow>
               (let sy = alpha f * new_y + (1 - alpha f) * ly in
                Inr (f\<lparr>last_x := Some sx, last_y := Some sy\<rparr>, sx, sy))))"

text \<open>Successive calls of \<open>filter\<close> on one instance, collecting what each call returns.\<close>

fun filter_calls :: "EMAFilter \<Rightarrow> (real \<times> real) list \<Rightarrow> error + (real \<times> real) list" where
  "filter_calls f [] = Inr []"
| "filter_calls f (p # ps) =
     (case filter_ema f (fst p) (snd p) of
        Inl e \<Rightarrow> Inl e
      | Inr (f', out) \<Rightarrow>
          (case filter_calls f' ps of
             Inl e \<Rightarrow> Inl e
           | Inr outs \<Rightarrow> Inr (out # outs)))"

subsection \<open>Landmarks and hands\<close>

text \<open>The landmark names of MediaPipe Hands, in index order (0 to 20).\<close>

datatype HandLandmark =
    WRIST
  | THUMB_CMC | THUMB_MCP | THUMB_IP | THUMB_TIP
  | INDEX_FINGER_MCP | INDEX_FINGER_PIP | INDEX_FINGER_DIP | INDEX_FINGER_TIP
  | MIDDLE_FINGER_MCP | MIDDLE_FINGER_PIP | MIDDLE_FINGER_DIP | MIDDLE_FINGER_TIP
  | RING_FINGER_MCP | RING_FINGER_PIP | RING_FINGER_DIP | RING_FINGER_TIP
  | PINKY_MCP | PINKY_PIP | PINKY_DIP | PINKY_TIP

record point =
  x :: real
  y :: real
  z :: real

text \<open>
  One detected hand: its entry of \<open>results.multi_hand_landmarks\<close> (indexed by landmark
  name) together with the label of its entry of \<open>results.multi_handedness\<close>; MediaPipe
  returns the two lists with one entry per hand, in the same order.
\<close>

record hand =
  landmark :: "HandLandmark \<Rightarrow> point"
  label :: string

text \<open>What one loop iteration obtains: \<open>cap.read()\<close>, the hands found, \<open>time.time()\<close>.\<close>

record capture =
  success :: bool
  multi_hand_landmarks :: "hand list"
  current_time :: real

text \<open>The Qt signals of \<open>VideoWorker\<close>; the pixmap carried by \<open>image_ready\<close> is left out.\<close>

datatype event =
    image_ready
  | coords_ready real real
  | gesture_ready bool
  | page_flick_ready int
  | return_home_ready

subsection \<open>VideoWorker\<close>

text \<open>The thresholds are attributes assigned once in \<open>__init__\<close> and never written again.\<close>

definition GRASP_THRESHOLD :: real where "GRASP_THRESHOLD = 0.20"
definition PINCH_THRESHOLD :: real where "PINCH_THRESHOLD = 0.04"
definition PINCH_COOLDOWN :: real where "PINCH_COOLDOWN = 1.0"
definition FLICK_THRESHOLD :: real where "FLICK_THRESHOLD = 0.07"
definition FLICK_COOLDOWN :: real where "FLICK_COOLDOWN = 1.0"
definition Y_COMPENSATION_OFFSET :: real where "Y_COMPENSATION_OFFSET = 0.04"

record VideoWorker =
  running :: bool
  filter_index :: EMAFilter
  last_pinch_time :: real
  is_pinching :: bool
  last_flick_time :: real
  is_flicking :: bool

definition VideoWorker_init :: VideoWorker where
  "VideoWorker_init =
     \<lparr>running = True, filter_index = EMAFilter_init 0.3,
      last_pinch_time = 0, is_pinching = False,
      last_flick_time = 0, is_flicking = False\<rparr>"

text \<open>The distance written out three times in \<open>run\<close>: \<open>math.sqrt\<close> of the three squares.\<close>

definition distance3 :: "point \<Rightarrow> point \<Rightarrow> real" where
  "distance3 a b = sqrt ((x a - x b)\<^sup>2 + (y a - y b)\<^sup>2 + (z a - z b)\<^sup>2)"

subsubsection \<open>1. Grasp\<close>

definition finger_tips_indices :: "HandLandmark list" where
  "finger_tips_indices = [INDEX_FINGER_TIP, MIDDLE_FINGER_TIP, RING_FINGER_TIP, PINKY_TIP]"

definition total_distance :: "hand \<Rightarrow> real" where
  "total_distance h =
     foldl (\<lambda>total tip_index. total + distance3 (landmark h tip_index) (landmark h WRIST))
       0 finger_tips_indices"

definition average_distance :: "hand \<Rightarrow> real" where
  "average_distance h = total_distance h / real (length finger_tips_indices)"

definition is_grasping :: "hand \<Rightarrow> bool" where
  "is_grasping h = (average_distance h < GRASP_THRESHOLD)"

subsubsection \<open>3. Pinch (return home)\<close>

definition pinch_distance :: "hand \<Rightarrow> real" where
  "pinch_distance h = distance3 (landmark h THUMB_TIP) (landmark h MIDDLE_FINGER_TIP)"

text \<open>
  Lines 150 to 164: the state after them and the signals emitted. The first component of
  the inner triple is \<open>pinch_pose_detected\<close>.
\<close>

definition pinch_step :: "VideoWorker \<Rightarrow> hand \<Rightarrow> bool \<Rightarrow> real \<Rightarrow> VideoWorker \<times> event list" where
  "pinch_step s cursor grasping t =
     (let is_current_pinch = pinch_distance cursor < PINCH_THRESHOLD;
          (pinch_pose_detected, s1, evs) =
            (if is_current_pinch then
               (if \<not> grasping \<and> \<not> is_pinching s \<and> t - last_pinch_time s > PINCH_COOLDOWN
                then (True, s\<lparr>last_pinch_time := t, is_pinching := True\<rparr>, [return_home_ready])
                else (True, s, []))
             else (False, s, []));
          s2 = (if \<not> pinch_pose_detected \<and> is_pinching s1
                then s1\<lparr>is_pinching := False\<rparr> else s1)
      in (s2, evs))"

subsubsection \<open>4. Flick (page turn)\<close>

definition flick_distance :: "hand \<Rightarrow> real" where
  "flick_distance h = distance3 (landmark h THUMB_TIP) (landmark h PINKY_TIP)"

text \<open>The signal of a firing flick: nothing is emitted for a label other than the two.\<close>

definition flick_signal :: "string \<Rightarrow> event list" where
  "flick_signal handedness =
     (if handedness = ''Right'' then [page_flick_ready 1]
      else if handedness = ''Left'' then [page_flick_ready (- 1)]
      else [])"

text \<open>
  The \<open>for\<close> loop over the hands (lines 167 to 195); the Boolean is
  \<open>flick_pose_detected\<close>. The firing branch ends the loop (\<open>break\<close>).
\<close>

fun flick_loop :: "VideoWorker \<Rightarrow> real \<Rightarrow> bool \<Rightarrow> hand list \<Rightarrow> VideoWorker \<times> bool \<times> event list" where
  "flick_loop s t detected [] = (s, detected, [])"
| "flick_loop s t detected (h # hs) =
     (if flick_distance h < FLICK_THRESHOLD then
        (if \<not> is_flicking s \<and> t - last_flick_time s > FLICK_COOLDOWN
         then (s\<lparr>last_flick_time := t, is_flicking := True\<rparr>, True, flick_signal (label h))
         else flick_loop s t True hs)
      else flick_loop s t detected hs)"

definition flick_step :: "VideoWorker \<Rightarrow> hand list \<Rightarrow> real \<Rightarrow> VideoWorker \<times> event list" where
  "flick_step s hs t =
     (case flick_loop s t False hs of
        (s1, flick_pose_detected, evs) \<Rightarrow>
          ((if \<not> flick_pose_detected \<and> is_flicking s1
            then s1\<lparr>is_flicking := False\<rparr> else s1), evs))"

subsubsection \<open>The loop of \<open>run\<close>\<close>

text \<open>
  One iteration of the \<open>while\<close> loop: the new state and the signals in emission order.
  A failed read leaves the iteration at once (\<open>continue\<close>).
\<close>

definition loop_body :: "VideoWorker \<Rightarrow> capture \<Rightarrow> error + (VideoWorker \<times> event list)" where
  "loop_body s c =
     (if \<not> success c then Inr (s, [])
      else
        (case multi_hand_landmarks c of
           [] \<Rightarrow> Inr (s\<lparr>is_pinching := False, is_flicking := False\<rparr>, [image_ready])
         | hand_landmarks_cursor # _ \<Rightarrow>
             (let grasping = is_grasping hand_landmarks_cursor;
                  index_tip = landmark hand_landmarks_cursor INDEX_FINGER_TIP;
                  x_raw = x index_tip;
                  y_raw = (if grasping then y index_tip - Y_COMPENSATION_OFFSET else y index_tip)
              in case filter_ema (filter_index s) x_raw y_raw of
                   Inl e \<Rightarrow> Inl e
                 | Inr (f', x_filtered, y_filtered) \<Rightarrow>
                     (case pinch_step (s\<lparr>filter_index := f'\<rparr>) hand_landmarks_cursor grasping
                             (current_time c) of
                        (s2, pinch_evs) \<Rightarrow>
                          (case flick_step s2 (multi_hand_landmarks c) (current_time c) of
                             (s3, flick_evs) \<Rightarrow>
                               Inr (s3,
                                    [gesture_ready grasping, coords_ready x_filtered y_filtered]
                                    @ pinch_evs @ flick_evs @ [image_ready]))))))"

text \<open>
  The \<open>while self.running\<close> loop. The list holds what the iterations obtain until
  \<open>stop()\<close>, called from the owning thread, has cleared \<open>running\<close>; the result lists
  the signals of each iteration, one entry per capture.
\<close>

fun frame_loop :: "VideoWorker \<Rightarrow> capture list \<Rightarrow> error + (VideoWorker \<times> event list list)" where
  "frame_loop s [] = Inr (s\<lparr>running := False\<rparr>, [])"
| "frame_loop s (c # cs) =
     (if \<not> running s then Inr (s, [])
      else
        (case loop_body s c of
           Inl e \<Rightarrow> Inl e
         | Inr (s', evs) \<Rightarrow>
             (case frame_loop s' cs of
                Inl e \<Rightarrow> Inl e
              | Inr (s'', evss) \<Rightarrow> Inr (s'', evs # evss))))"

text \<open>\<open>VideoWorker.run\<close>; the Boolean is \<open>cap.isOpened()\<close>.\<close>

definition run :: "VideoWorker \<Rightarrow> bool \<Rightarrow> capture list \<Rightarrow> error + (VideoWorker \<times> event list list)" where
  "run s opened cs =
     (if \<not> opened then Inr (s\<lparr>running := False\<rparr>, [])
      else frame_loop s cs)"

subsection \<open>The smoothing recurrence as the specification words it\<close>

text \<open>
  The outputs that follow a previous output \<open>prev\<close>: each is
  \<open>\<alpha>\<cdot>raw + (1 - \<alpha>)\<cdot>smoothed_prev\<close> on either axis.
\<close>

fun ema_from :: "real \<Rightarrow> real \<times> real \<Rightarrow> (real \<times> real) list \<Rightarrow> (real \<times> real) list" where
  "ema_from a prev [] = []"
| "ema_from a prev (q # qs) =
     (let out = (a * fst q + (1 - a) * fst prev, a * snd q + (1 - a) * snd prev)
      in out # ema_from a out qs)"

subsection \<open>Notions used to state the properties\<close>

text \<open>
  The filter states that \<open>__init__\<close> and \<open>filter\<close> produce: \<open>last_y\<close> is set whenever
  \<open>last_x\<close> is.
\<close>

definition filter_ok :: "EMAFilter \<Rightarrow> bool" where
  "filter_ok f = (case last_x f of None \<Rightarrow> True | Some _ \<Rightarrow> last_y f \<noteq> None)"

text \<open>The two poses, as the loop tests them on one hand.\<close>

definition pinch_pose :: "hand \<Rightarrow> bool" where
  "pinch_pose h = (pinch_distance h < PINCH_THRESHOLD)"

definition flick_pose :: "hand \<Rightarrow> bool" where
  "flick_pose h = (flick_distance h < FLICK_THRESHOLD)"

text \<open>Whether the signals of one iteration contain the pinch signal, or a flick signal.\<close>

definition pinch_fired :: "event list \<Rightarrow> bool" where
  "pinch_fired evs = (return_home_ready \<in> set evs)"

fun is_flick_event :: "event \<Rightarrow> bool" where
  "is_flick_event (page_flick_ready d) = True"
| "is_flick_event e = False"

definition flick_fired :: "event list \<Rightarrow> bool" where
  "flick_fired evs = list_ex is_flick_event evs"

text \<open>
  A capture in which the pose is detected: the read succeeded, a hand is present, and the
  cursor hand shows the pinch pose (some hand shows the flick pose).
\<close>

definition pinch_detected :: "capture \<Rightarrow> bool" where
  "pinch_detected c =
     (success c \<and> (case multi_hand_landmarks c of [] \<Rightarrow> False | h # _ \<Rightarrow> pinch_pose h))"

definition flick_detected :: "capture \<Rightarrow> bool" where
  "flick_detected c = (success c \<and> list_ex flick_pose (multi_hand_landmarks c))"

text \<open>
  Whether the cursor hand of a capture is classified as grasping, and whether the first
  hand showing the flick pose carries one of the two labels the loop emits for.
\<close>

definition cursor_grasping :: "capture \<Rightarrow> bool" where
  "cursor_grasping c =
     (case multi_hand_landmarks c of [] \<Rightarrow> False | h # _ \<Rightarrow> is_grasping h)"

definition first_flick_labelled :: "capture \<Rightarrow> bool" where
  "first_flick_labelled c =
     (case find flick_pose (multi_hand_landmarks c) of
        None \<Rightarrow> False
      | Some h \<Rightarrow> label h = ''Right'' \<or> label h = ''Left'')"

text \<open>The times of the captures whose iteration emitted the signal.\<close>

fun pinch_fire_times :: "capture list \<Rightarrow> event list list \<Rightarrow> real list" where
  "pinch_fire_times (c # cs) (evs # evss) =
     (if pinch_fired evs then current_time c # pinch_fire_times cs evss
      else pinch_fire_times cs evss)"
| "pinch_fire_times cs evss = []"

fun flick_fire_times :: "capture list \<Rightarrow> event list list \<Rightarrow> real list" where
  "flick_fire_times (c # cs) (evs # evss) =
     (if flick_fired evs then current_time c # flick_fire_times cs evss
      else flick_fire_times cs evss)"
| "flick_fire_times cs evss = []"

text \<open>
  A synthetic hand: wrist and thumb tip at the origin, the middle fingertip at distance
  \<open>\<bar>m\<bar>\<close>, the pinky tip at \<open>\<bar>p\<bar>\<close>, the index and ring fingertips at \<open>\<bar>r\<bar>\<close>, all on the
  first axis.
\<close>

definition synthetic_hand :: "real \<Rightarrow> real \<Rightarrow> real \<Rightarrow> string \<Rightarrow> hand" where
  "synthetic_hand m p r lab =
     \<lparr>landmark = (\<lambda>i.
        \<lparr>x = (if i = MIDDLE_FINGER_TIP then m
               else if i = PINKY_TIP then p
               else if i = INDEX_FINGER_TIP \<or> i = RING_FINGER_TIP then r
               else 0),
         y = 0, z = 0\<rparr>),
      label = lab\<rparr>"

text \<open>A successful read at time \<open>t\<close> that found the hands \<open>hs\<close>, and a failed read.\<close>

definition seen :: "hand list \<Rightarrow> real \<Rightarrow> capture" where
  "seen hs t = \<lparr>success = True, multi_hand_landmarks = hs, current_time = t\<rparr>"

definition read_failure :: capture where
  "read_failure = \<lparr>success = False, multi_hand_landmarks = [], current_time = 0\<rparr>"

section \<open>The temporal filter\<close>

lemma filter_calls_started:
  "alpha f = a \<Longrightarrow> last_x f = Some px \<Longrightarrow> last_y f = Some py \<Longrightarrow>
   filter_calls f ps = Inr (ema_from a (px, py) ps)"
  by (induction ps arbitrary: f px py) (simp_all add: filter_ema_def Let_def)

lemma filter_calls_init:
  "filter_calls (EMAFilter_init a) (p # ps) = Inr (p # ema_from a p ps)"
  using filter_calls_started
    [of "(EMAFilter_init a)\<lparr>last_x := Some (fst p), last_y := Some (snd p)\<rparr>" a "fst p" "snd p" ps]
  by (simp add: filter_ema_def EMAFilter_init_def)

lemma length_ema_from: "length (ema_from a prev qs) = length qs"
  by (induction qs arbitrary: prev) (simp_all add: Let_def)

lemma ema_from_nth:
  "i < length qs \<Longrightarrow>
   (prev # ema_from a prev qs) ! Suc i =
     (a * fst (qs ! i) + (1 - a) * fst ((prev # ema_from a prev qs) ! i),
      a * snd (qs ! i) + (1 - a) * snd ((prev # ema_from a prev qs) ! i))"
proof (induction qs arbitrary: prev i)
  case Nil
  then show ?case by simp
next
  case (Cons q qs)
  show ?case
  proof (cases i)
    case 0
    then show ?thesis by (simp add: Let_def)
  next
    case (Suc j)
    with Cons.prems have "j < length qs" by simp
    from Cons.IH [OF this] Suc show ?thesis by (simp add: Let_def)
  qed
qed

text \<open>
  C4. On a fresh filter with smoothing factor \<open>a\<close>, any sequence of calls returns without
  error, one output per input; the first output is the first input, and every later
  output is \<open>a\<cdot>raw + (1 - a)\<cdot>previous output\<close> on each axis. With \<open>a = 0.3\<close> the raw stream
  (0.5,0.5), (0.5,0.5), (0.9,0.5) gives (0.5,0.5), (0.5,0.5), (0.62,0.5).
\<close>

theorem ema_filter_outputs:
  "\<exists>outs. filter_calls (EMAFilter_init a) inputs = Inr outs
     \<and> length outs = length inputs
     \<and> (inputs \<noteq> [] \<longrightarrow> outs ! 0 = inputs ! 0)
     \<and> (\<forall>i. 0 < i \<and> i < length inputs \<longrightarrow>
          outs ! i = (a * fst (inputs ! i) + (1 - a) * fst (outs ! (i - 1)),
                      a * snd (inputs ! i) + (1 - a) * snd (outs ! (i - 1))))
     \<and> filter_calls (EMAFilter_init 0.3) [(0.5, 0.5), (0.5, 0.5), (0.9, 0.5)]
         = Inr [(0.5, 0.5), (0.5, 0.5), (0.62, 0.5)]"
proof -
  have scen: "filter_calls (EMAFilter_init 0.3) [(0.5, 0.5), (0.5, 0.5), (0.9, 0.5)]
         = Inr [(0.5, 0.5), (0.5, 0.5), (0.62, 0.5)]"
    by (subst filter_calls_init) (simp add: Let_def)
  show ?thesis
  proof (cases inputs)
    case Nil
    then show ?thesis using scen by simp
  next
    case (Cons p ps)
    have nth: "(p # ema_from a p ps) ! i =
         (a * fst ((p # ps) ! i) + (1 - a) * fst ((p # ema_from a p ps) ! (i - 1)),
          a * snd ((p # ps) ! i) + (1 - a) * snd ((p # ema_from a p ps) ! (i - 1)))"
      if "0 < i" "i < length (p # ps)" for i
    proof -
      from that obtain j where j: "i = Suc j" "j < length ps" by (cases i) auto
      from ema_from_nth [OF j(2), of p a] j(1) show ?thesis by simp
    qed
    show ?thesis
      unfolding Cons filter_calls_init
      using nth scen by (simp add: length_ema_from)
  qed
qed

theorem ema_filter_outputs_witness:
  "[(0, 4), (2, 0)] \<noteq> ([] :: (real \<times> real) list)
   \<and> (0::nat) < 1 \<and> 1 < length [(0, 4), (2, 0 :: real) :: real \<times> real]
   \<and> filter_calls (EMAFilter_init (1/2)) [(0, 4), (2, 0)] = Inr [(0, 4), (1, 2)]"
  using ema_filter_outputs [of "1/2" "[(0, 4), (2, 0)]"]
  by (simp add: filter_ema_def EMAFilter_init_def Let_def)

section \<open>Facts about one loop iteration\<close>

lemma distance3_axis:
  "y a = y b \<Longrightarrow> z a = z b \<Longrightarrow> distance3 a b = \<bar>x a - x b\<bar>"
  by (simp add: distance3_def)

lemma pinch_distance_synthetic [simp]: "pinch_distance (synthetic_hand m p r lab) = \<bar>m\<bar>"
  by (simp add: pinch_distance_def synthetic_hand_def distance3_axis)

lemma flick_distance_synthetic [simp]: "flick_distance (synthetic_hand m p r lab) = \<bar>p\<bar>"
  by (simp add: flick_distance_def synthetic_hand_def distance3_axis)

lemma total_distance_unfold:
  "total_distance h =
     distance3 (landmark h INDEX_FINGER_TIP) (landmark h WRIST)
     + distance3 (landmark h MIDDLE_FINGER_TIP) (landmark h WRIST)
     + distance3 (landmark h RING_FINGER_TIP) (landmark h WRIST)
     + distance3 (landmark h PINKY_TIP) (landmark h WRIST)"
  by (simp add: total_distance_def finger_tips_indices_def)

lemma average_distance_unfold:
  "average_distance h =
     (distance3 (landmark h INDEX_FINGER_TIP) (landmark h WRIST)
      + distance3 (landmark h MIDDLE_FINGER_TIP) (landmark h WRIST)
      + distance3 (landmark h RING_FINGER_TIP) (landmark h WRIST)
      + distance3 (landmark h PINKY_TIP) (landmark h WRIST)) / 4"
  by (simp add: average_distance_def total_distance_unfold finger_tips_indices_def)

lemma average_distance_synthetic [simp]:
  "average_distance (synthetic_hand m p r lab) = (\<bar>r\<bar> + \<bar>m\<bar> + \<bar>r\<bar> + \<bar>p\<bar>) / 4"
  by (simp add: average_distance_unfold synthetic_hand_def distance3_axis)

lemma label_synthetic [simp]: "label (synthetic_hand m p r lab) = lab"
  by (simp add: synthetic_hand_def)

lemma index_tip_synthetic [simp]:
  "landmark (synthetic_hand m p r lab) INDEX_FINGER_TIP = \<lparr>x = r, y = 0, z = 0\<rparr>"
  by (simp add: synthetic_hand_def)

lemma filter_ema_ok:
  "filter_ok f \<Longrightarrow> \<exists>f' ox oy. filter_ema f a b = Inr (f', ox, oy) \<and> filter_ok f'"
  by (auto simp add: filter_ok_def filter_ema_def Let_def split: option.splits)

lemma filter_ok_init [simp]: "filter_ok (EMAFilter_init a)"
  by (simp add: filter_ok_def EMAFilter_init_def)


lemma pinch_step_events:
  "snd (pinch_step s h g t) =
     (if pinch_distance h < PINCH_THRESHOLD \<and> \<not> g \<and> \<not> is_pinching s
         \<and> t - last_pinch_time s > PINCH_COOLDOWN
      then [return_home_ready] else [])"
  by (simp add: pinch_step_def Let_def)

lemma pinch_step_state:
  "fst (pinch_step s h g t) =
     (if pinch_distance h < PINCH_THRESHOLD then
        (if \<not> g \<and> \<not> is_pinching s \<and> t - last_pinch_time s > PINCH_COOLDOWN
         then s\<lparr>last_pinch_time := t, is_pinching := True\<rparr> else s)
      else s\<lparr>is_pinching := False\<rparr>)"
  by (cases s) (simp add: pinch_step_def Let_def)

lemma flick_loop_blocked:
  "\<not> (\<not> is_flicking s \<and> t - last_flick_time s > FLICK_COOLDOWN) \<Longrightarrow>
   flick_loop s t d hs = (s, d \<or> list_ex flick_pose hs, [])"
  by (induction hs arbitrary: d) (auto simp add: flick_pose_def)

lemma flick_loop_free:
  "\<not> is_flicking s \<Longrightarrow> t - last_flick_time s > FLICK_COOLDOWN \<Longrightarrow>
   flick_loop s t d hs =
     (case find flick_pose hs of
        None \<Rightarrow> (s, d, [])
      | Some h \<Rightarrow> (s\<lparr>last_flick_time := t, is_flicking := True\<rparr>, True, flick_signal (label h)))"
  by (induction hs arbitrary: d) (auto simp add: flick_pose_def)

lemma find_None_list_ex: "(find P xs = None) = (\<not> list_ex P xs)"
  by (induction xs) auto

lemma flick_step_eq:
  "flick_step s hs t =
     (if \<not> is_flicking s \<and> t - last_flick_time s > FLICK_COOLDOWN then
        (case find flick_pose hs of
           None \<Rightarrow> (s, [])
         | Some h \<Rightarrow> (s\<lparr>last_flick_time := t, is_flicking := True\<rparr>, flick_signal (label h)))
      else ((if list_ex flick_pose hs then s else s\<lparr>is_flicking := False\<rparr>), []))"
proof (cases "\<not> is_flicking s \<and> t - last_flick_time s > FLICK_COOLDOWN")
  case True
  then show ?thesis
    by (cases s) (auto simp add: flick_step_def flick_loop_free split: option.splits)
next
  case False
  from flick_loop_blocked [OF False] False show ?thesis
    by (cases s) (auto simp add: flick_step_def)
qed

lemma loop_body_no_read: "\<not> success c \<Longrightarrow> loop_body s c = Inr (s, [])"
  by (simp add: loop_body_def)

lemma loop_body_no_hand:
  "success c \<Longrightarrow> multi_hand_landmarks c = [] \<Longrightarrow>
   loop_body s c = Inr (s\<lparr>is_pinching := False, is_flicking := False\<rparr>, [image_ready])"
  by (simp add: loop_body_def)

lemma loop_body_hands:
  assumes "success c" and "multi_hand_landmarks c = h # hs" and "filter_ok (filter_index s)"
  shows "\<exists>f' xf yf s2 pevs s3 fevs.
           filter_ok f'
         \<and> pinch_step (s\<lparr>filter_index := f'\<rparr>) h (is_grasping h) (current_time c) = (s2, pevs)
         \<and> flick_step s2 (h # hs) (current_time c) = (s3, fevs)
         \<and> loop_body s c =
             Inr (s3, [gesture_ready (is_grasping h), coords_ready xf yf] @ pevs @ fevs @ [image_ready])"
proof -
  let ?xr = "x (landmark h INDEX_FINGER_TIP)"
  let ?yr = "if is_grasping h then y (landmark h INDEX_FINGER_TIP) - Y_COMPENSATION_OFFSET
             else y (landmark h INDEX_FINGER_TIP)"
  from filter_ema_ok [OF assms(3), of ?xr ?yr]
  obtain f' xf yf where f: "filter_ema (filter_index s) ?xr ?yr = Inr (f', xf, yf)" "filter_ok f'"
    by blast
  obtain s2 pevs where p: "pinch_step (s\<lparr>filter_index := f'\<rparr>) h (is_grasping h) (current_time c) = (s2, pevs)"
    by (cases "pinch_step (s\<lparr>filter_index := f'\<rparr>) h (is_grasping h) (current_time c)")
  obtain s3 fevs where fl: "flick_step s2 (h # hs) (current_time c) = (s3, fevs)"
    by (cases "flick_step s2 (h # hs) (current_time c)")
  have "loop_body s c =
      Inr (s3, [gesture_ready (is_grasping h), coords_ready xf yf] @ pevs @ fevs @ [image_ready])"
    using assms(1,2) f(1) p fl by (simp add: loop_body_def Let_def)
  with f(2) p fl show ?thesis by blast
qed

text \<open>The effect of an iteration with a hand, field by field.\<close>

lemma loop_body_hands_summary:
  assumes "success c" and "multi_hand_landmarks c = h # hs" and "filter_ok (filter_index s)"
  shows "\<exists>s' evs xf yf pevs fevs.
           loop_body s c = Inr (s', evs)
         \<and> evs = [gesture_ready (is_grasping h), coords_ready xf yf] @ pevs @ fevs @ [image_ready]
         \<and> pevs = (if pinch_pose h \<and> \<not> is_grasping h \<and> \<not> is_pinching s
                       \<and> current_time c - last_pinch_time s > PINCH_COOLDOWN
                    then [return_home_ready] else [])
         \<and> fevs = (if \<not> is_flicking s \<and> current_time c - last_flick_time s > FLICK_COOLDOWN
                    then (case find flick_pose (h # hs) of
                            None \<Rightarrow> [] | Some h' \<Rightarrow> flick_signal (label h'))
                    else [])
         \<and> filter_ok (filter_index s')
         \<and> running s' = running s
         \<and> is_pinching s' = (pinch_pose h \<and> (is_pinching s \<or> pevs \<noteq> []))
         \<and> last_pinch_time s' = (if pevs \<noteq> [] then current_time c else last_pinch_time s)
         \<and> is_flicking s' = (list_ex flick_pose (h # hs)
                \<and> (is_flicking s \<or> current_time c - last_flick_time s > FLICK_COOLDOWN))
         \<and> last_flick_time s' =
             (if \<not> is_flicking s \<and> current_time c - last_flick_time s > FLICK_COOLDOWN
                 \<and> list_ex flick_pose (h # hs)
              then current_time c else last_flick_time s)"
proof -
  from loop_body_hands [OF assms]
  obtain f' xf yf s2 pevs s3 fevs where
    ok: "filter_ok f'" and
    p: "pinch_step (s\<lparr>filter_index := f'\<rparr>) h (is_grasping h) (current_time c) = (s2, pevs)" and
    fl: "flick_step s2 (h # hs) (current_time c) = (s3, fevs)" and
    lb: "loop_body s c =
           Inr (s3, [gesture_ready (is_grasping h), coords_ready xf yf] @ pevs @ fevs @ [image_ready])"
    by blast
  let ?t = "current_time c"
  let ?pf = "pinch_pose h \<and> \<not> is_grasping h \<and> \<not> is_pinching s \<and> ?t - last_pinch_time s > PINCH_COOLDOWN"
  have pevs: "pevs = (if ?pf then [return_home_ready] else [])"
    using pinch_step_events [of "s\<lparr>filter_index := f'\<rparr>" h "is_grasping h" ?t] p
    by (simp add: pinch_pose_def)
  have s2: "s2 = (if pinch_pose h then
                    (if ?pf then s\<lparr>filter_index := f', last_pinch_time := ?t, is_pinching := True\<rparr>
                     else s\<lparr>filter_index := f'\<rparr>)
                  else s\<lparr>filter_index := f', is_pinching := False\<rparr>)"
    using pinch_step_state [of "s\<lparr>filter_index := f'\<rparr>" h "is_grasping h" ?t] p
    by (simp add: pinch_pose_def)
  have s2_flick: "is_flicking s2 = is_flicking s" "last_flick_time s2 = last_flick_time s"
    and s2_misc: "running s2 = running s" "filter_index s2 = f'"
    and s2_pinch: "is_pinching s2 = (pinch_pose h \<and> (is_pinching s \<or> pevs \<noteq> []))"
      "last_pinch_time s2 = (if pevs \<noteq> [] then ?t else last_pinch_time s)"
    by (auto simp add: s2 pevs)
  let ?ff = "\<not> is_flicking s \<and> ?t - last_flick_time s > FLICK_COOLDOWN"
  from flick_step_eq [of s2 "h # hs" ?t] fl s2_flick
  have fl_eq: "(s3, fevs) =
     (if ?ff then
        (case find flick_pose (h # hs) of
           None \<Rightarrow> (s2, [])
         | Some h' \<Rightarrow> (s2\<lparr>last_flick_time := ?t, is_flicking := True\<rparr>, flick_signal (label h')))
      else ((if list_ex flick_pose (h # hs) then s2 else s2\<lparr>is_flicking := False\<rparr>), []))"
    by simp
  have fevs: "fevs = (if ?ff then (case find flick_pose (h # hs) of
                            None \<Rightarrow> [] | Some h' \<Rightarrow> flick_signal (label h'))
                    else [])"
    using fl_eq by (auto split: if_splits option.splits)
  have s3_other: "filter_index s3 = f'" "running s3 = running s"
     "is_pinching s3 = is_pinching s2" "last_pinch_time s3 = last_pinch_time s2"
    using fl_eq s2_misc by (auto split: if_splits option.splits)
  have s3_flick: "is_flicking s3 = (list_ex flick_pose (h # hs)
                \<and> (is_flicking s \<or> ?t - last_flick_time s > FLICK_COOLDOWN))"
    using fl_eq s2_flick find_None_list_ex [of flick_pose "h # hs"]
    by (auto split: if_splits option.splits)
  have s3_time: "last_flick_time s3 =
             (if ?ff \<and> list_ex flick_pose (h # hs) then ?t else last_flick_time s)"
    using fl_eq s2_flick find_None_list_ex [of flick_pose "h # hs"]
    by (auto split: if_splits option.splits)
  show ?thesis
    using lb pevs fevs ok s3_other s2_pinch s3_flick s3_time by (intro exI conjI) simp_all
qed

section \<open>The gesture classifiers\<close>

lemma return_home_not_flick_signal: "return_home_ready \<notin> set (flick_signal l)"
  by (simp add: flick_signal_def)

lemma return_home_in_events:
  "fevs = (if b then (case fo of None \<Rightarrow> [] | Some h' \<Rightarrow> flick_signal (label h')) else []) \<Longrightarrow>
   (return_home_ready \<in> set ([gesture_ready g, coords_ready xf yf] @ pevs @ fevs @ [image_ready]))
     = (return_home_ready \<in> set pevs)"
  by (cases b; cases fo) (simp_all add: return_home_not_flick_signal)

text \<open>
  C1, as amended. On every iteration with a hand present (and a filter state the class
  itself produces) the iteration returns, and the Pinch-Confirm signal is emitted, which is
  also exactly when the classifier goes from Idle to Active, if and only if the
  thumb-tip-to-middle-fingertip distance is below \<open>PINCH_THRESHOLD\<close> (0.04), the cursor hand
  is not grasping, the classifier is Idle, and the time since the last fire is strictly
  greater than \<open>PINCH_COOLDOWN\<close> (1.0).
\<close>

theorem pinch_confirm_fires_iff:
  assumes "success c" and "multi_hand_landmarks c = cursor # others"
    and "filter_ok (filter_index s)"
  shows "\<exists>s' evs. loop_body s c = Inr (s', evs)
     \<and> (return_home_ready \<in> set evs) =
         (pinch_distance cursor < PINCH_THRESHOLD \<and> \<not> is_grasping cursor \<and> \<not> is_pinching s
          \<and> current_time c - last_pinch_time s > PINCH_COOLDOWN)
     \<and> (\<not> is_pinching s \<and> is_pinching s') = (return_home_ready \<in> set evs)
     \<and> PINCH_THRESHOLD = 0.04 \<and> PINCH_COOLDOWN = 1"
proof -
  from loop_body_hands_summary [OF assms]
  obtain s' evs xf yf pevs fevs where
    lb: "loop_body s c = Inr (s', evs)" and
    evs: "evs = [gesture_ready (is_grasping cursor), coords_ready xf yf] @ pevs @ fevs @ [image_ready]" and
    pevs: "pevs = (if pinch_pose cursor \<and> \<not> is_grasping cursor \<and> \<not> is_pinching s
                       \<and> current_time c - last_pinch_time s > PINCH_COOLDOWN
                    then [return_home_ready] else [])" and
    fevs: "fevs = (if \<not> is_flicking s \<and> current_time c - last_flick_time s > FLICK_COOLDOWN
                    then (case find flick_pose (cursor # others) of
                            None \<Rightarrow> [] | Some h' \<Rightarrow> flick_signal (label h'))
                    else [])" and
    pin: "is_pinching s' = (pinch_pose cursor \<and> (is_pinching s \<or> pevs \<noteq> []))"
    by blast
  have mem: "(return_home_ready \<in> set evs) = (return_home_ready \<in> set pevs)"
    unfolding evs by (rule return_home_in_events [OF fevs])
  have fire: "(return_home_ready \<in> set evs) =
         (pinch_distance cursor < PINCH_THRESHOLD \<and> \<not> is_grasping cursor \<and> \<not> is_pinching s
          \<and> current_time c - last_pinch_time s > PINCH_COOLDOWN)"
    unfolding mem pevs by (simp add: pinch_pose_def)
  have edge: "(\<not> is_pinching s \<and> is_pinching s') = (return_home_ready \<in> set evs)"
    unfolding mem pin pevs by auto
  show ?thesis
    using lb fire edge by (simp add: PINCH_THRESHOLD_def PINCH_COOLDOWN_def)
qed

theorem pinch_confirm_fires_iff_witness:
  "success (seen [synthetic_hand 0.01 0.5 0.5 ''Right''] 100)
   \<and> multi_hand_landmarks (seen [synthetic_hand 0.01 0.5 0.5 ''Right''] 100)
       = synthetic_hand 0.01 0.5 0.5 ''Right'' # []
   \<and> filter_ok (filter_index VideoWorker_init)
   \<and> (\<exists>s' evs. loop_body VideoWorker_init (seen [synthetic_hand 0.01 0.5 0.5 ''Right''] 100)
                  = Inr (s', evs)
        \<and> return_home_ready \<in> set evs \<and> is_pinching s')"
  using pinch_confirm_fires_iff
    [of "seen [synthetic_hand 0.01 0.5 0.5 ''Right''] 100" "synthetic_hand 0.01 0.5 0.5 ''Right''"
        "[]" VideoWorker_init]
  by (auto simp add: seen_def VideoWorker_init_def is_grasping_def GRASP_THRESHOLD_def
      PINCH_THRESHOLD_def PINCH_COOLDOWN_def)

lemmas eval_simps =
  loop_body_def seen_def read_failure_def VideoWorker_init_def EMAFilter_init_def filter_ema_def
  pinch_step_def flick_step_def flick_signal_def is_grasping_def pinch_fired_def flick_fired_def
  pinch_pose_def flick_pose_def filter_ok_def
  GRASP_THRESHOLD_def PINCH_THRESHOLD_def PINCH_COOLDOWN_def FLICK_THRESHOLD_def
  FLICK_COOLDOWN_def Y_COMPENSATION_OFFSET_def Let_def

text \<open>
  C1 as stated fails when exactly \<open>PINCH_COOLDOWN\<close> has elapsed. The worker fires at time
  100, sees the pinch released at 100.5, and sees the pinch pose again at 101: the hand is
  not grasping, the classifier is Idle and the elapsed time is 1.0, yet nothing is emitted.
\<close>

theorem pinch_cooldown_boundary_counterexample:
  "\<not> isl (frame_loop VideoWorker_init
            [seen [synthetic_hand 0.01 0.5 0.5 ''Right''] 100,
             seen [synthetic_hand 0.3 0.5 0.5 ''Right''] 100.5,
             seen [synthetic_hand 0.01 0.5 0.5 ''Right''] 101])
   \<and> map pinch_fired (snd (projr (frame_loop VideoWorker_init
            [seen [synthetic_hand 0.01 0.5 0.5 ''Right''] 100,
             seen [synthetic_hand 0.3 0.5 0.5 ''Right''] 100.5,
             seen [synthetic_hand 0.01 0.5 0.5 ''Right''] 101])))
       = [True, False, False]
   \<and> pinch_distance (synthetic_hand 0.01 0.5 0.5 ''Right'') < PINCH_THRESHOLD
   \<and> \<not> is_grasping (synthetic_hand 0.01 0.5 0.5 ''Right'')
   \<and> \<not> is_pinching (fst (projr (frame_loop VideoWorker_init
            [seen [synthetic_hand 0.01 0.5 0.5 ''Right''] 100,
             seen [synthetic_hand 0.3 0.5 0.5 ''Right''] 100.5])))
   \<and> 101 - last_pinch_time (fst (projr (frame_loop VideoWorker_init
            [seen [synthetic_hand 0.01 0.5 0.5 ''Right''] 100,
             seen [synthetic_hand 0.3 0.5 0.5 ''Right''] 100.5])))
       \<ge> PINCH_COOLDOWN"
  by (simp add: eval_simps)

lemma loop_body_hands_Inr:
  assumes "success c" and "multi_hand_landmarks c = h # hs" and "loop_body s c = Inr (s', evs)"
  shows "\<exists>f' xf yf.
           evs = [gesture_ready (is_grasping h), coords_ready xf yf]
                 @ snd (pinch_step (s\<lparr>filter_index := f'\<rparr>) h (is_grasping h) (current_time c))
                 @ snd (flick_step
                          (fst (pinch_step (s\<lparr>filter_index := f'\<rparr>) h (is_grasping h) (current_time c)))
                          (h # hs) (current_time c))
                 @ [image_ready]"
proof -
  let ?xr = "x (landmark h INDEX_FINGER_TIP)"
  let ?yr = "if is_grasping h then y (landmark h INDEX_FINGER_TIP) - Y_COMPENSATION_OFFSET
             else y (landmark h INDEX_FINGER_TIP)"
  from assms obtain f' xf yf where f: "filter_ema (filter_index s) ?xr ?yr = Inr (f', xf, yf)"
    by (cases "filter_ema (filter_index s) ?xr ?yr") (auto simp add: loop_body_def Let_def)
  from assms f have
    "evs = [gesture_ready (is_grasping h), coords_ready xf yf]
                 @ snd (pinch_step (s\<lparr>filter_index := f'\<rparr>) h (is_grasping h) (current_time c))
                 @ snd (flick_step
                          (fst (pinch_step (s\<lparr>filter_index := f'\<rparr>) h (is_grasping h) (current_time c)))
                          (h # hs) (current_time c))
                 @ [image_ready]"
    by (auto simp add: loop_body_def Let_def split: prod.splits)
  then show ?thesis by blast
qed

lemma return_home_not_flick_step: "return_home_ready \<notin> set (snd (flick_step s hs t))"
  by (simp add: flick_step_eq return_home_not_flick_signal split: option.splits)

text \<open>
  C3. On an iteration whose cursor hand is classified as grasping, no Pinch-Confirm signal
  is emitted, whatever the pinch distance; the iteration does return and reports the grasp.
\<close>

theorem no_pinch_while_grasping:
  assumes "success c" and "multi_hand_landmarks c = cursor # others"
    and "is_grasping cursor"
  shows "(\<forall>s' evs. loop_body s c = Inr (s', evs) \<longrightarrow> return_home_ready \<notin> set evs)
       \<and> (filter_ok (filter_index s) \<longrightarrow>
            (\<exists>s' evs. loop_body s c = Inr (s', evs) \<and> gesture_ready True \<in> set evs))"
proof (intro conjI allI impI)
  fix s' evs
  assume lb: "loop_body s c = Inr (s', evs)"
  from loop_body_hands_Inr [OF assms(1,2) lb] assms(3)
  show "return_home_ready \<notin> set evs"
    by (auto simp add: pinch_step_events return_home_not_flick_step)
next
  assume "filter_ok (filter_index s)"
  from loop_body_hands_summary [OF assms(1,2) this]
  obtain s' evs xf yf pevs fevs where "loop_body s c = Inr (s', evs)"
    and "evs = [gesture_ready (is_grasping cursor), coords_ready xf yf] @ pevs @ fevs @ [image_ready]"
    by blast
  with assms(3) have "loop_body s c = Inr (s', evs) \<and> gesture_ready True \<in> set evs"
    by simp
  then show "\<exists>s' evs. loop_body s c = Inr (s', evs) \<and> gesture_ready True \<in> set evs"
    by blast
qed

theorem no_pinch_while_grasping_witness:
  "success (seen [synthetic_hand 0.01 0.05 0.1 ''Right''] 100)
   \<and> multi_hand_landmarks (seen [synthetic_hand 0.01 0.05 0.1 ''Right''] 100)
       = synthetic_hand 0.01 0.05 0.1 ''Right'' # []
   \<and> is_grasping (synthetic_hand 0.01 0.05 0.1 ''Right'')
   \<and> pinch_distance (synthetic_hand 0.01 0.05 0.1 ''Right'') < PINCH_THRESHOLD
   \<and> filter_ok (filter_index VideoWorker_init)
   \<and> loop_body VideoWorker_init (seen [synthetic_hand 0.01 0.05 0.1 ''Right''] 100)
       = Inr (VideoWorker_init
                \<lparr>filter_index := \<lparr>alpha = 0.3, last_x = Some 0.1, last_y = Some (- 0.04)\<rparr>,
                 last_flick_time := 100, is_flicking := True\<rparr>,
              [gesture_ready True, coords_ready 0.1 (- 0.04), page_flick_ready 1, image_ready])
   \<and> return_home_ready
       \<notin> set [gesture_ready True, coords_ready 0.1 (- 0.04), page_flick_ready 1, image_ready]"
  using no_pinch_while_grasping
    [of "seen [synthetic_hand 0.01 0.05 0.1 ''Right''] 100" "synthetic_hand 0.01 0.05 0.1 ''Right''"
        "[]" VideoWorker_init]
  by (simp add: eval_simps)

lemma filter_flick_signal: "filter is_flick_event (flick_signal l) = flick_signal l"
  by (simp add: flick_signal_def)

lemma flick_events_of_iteration:
  "pevs = (if a then [return_home_ready] else []) \<Longrightarrow>
   fevs = (if b then (case fo of None \<Rightarrow> [] | Some h' \<Rightarrow> flick_signal (label h')) else []) \<Longrightarrow>
   filter is_flick_event ([gesture_ready g, coords_ready xf yf] @ pevs @ fevs @ [image_ready]) = fevs"
  by (cases a; cases b; cases fo) (simp_all add: filter_flick_signal)

text \<open>
  C8. When the Flick classifier is Idle, more than \<open>FLICK_COOLDOWN\<close> has elapsed since the
  last flick and \<open>h\<close> is the first hand whose thumb-tip-to-pinky-tip distance is below 0.07,
  the flick fires and the only flick signal emitted carries +1 if \<open>h\<close> is labelled Right and
  -1 if it is labelled Left.
\<close>

theorem flick_direction:
  assumes "success c" and "multi_hand_landmarks c = cursor # others"
    and "filter_ok (filter_index s)"
    and "\<not> is_flicking s" and "current_time c - last_flick_time s > FLICK_COOLDOWN"
    and "find flick_pose (cursor # others) = Some h"
  shows "\<exists>s' evs. loop_body s c = Inr (s', evs)
     \<and> (label h = ''Right'' \<longrightarrow> filter is_flick_event evs = [page_flick_ready 1])
     \<and> (label h = ''Left'' \<longrightarrow> filter is_flick_event evs = [page_flick_ready (- 1)])
     \<and> is_flicking s' \<and> last_flick_time s' = current_time c
     \<and> flick_pose h = (distance3 (landmark h THUMB_TIP) (landmark h PINKY_TIP) < 0.07)
     \<and> FLICK_COOLDOWN = 1"
proof -
  from loop_body_hands_summary [OF assms(1-3)]
  obtain s' evs xf yf pevs fevs where
    lb: "loop_body s c = Inr (s', evs)" and
    evs: "evs = [gesture_ready (is_grasping cursor), coords_ready xf yf] @ pevs @ fevs @ [image_ready]" and
    pevs: "pevs = (if pinch_pose cursor \<and> \<not> is_grasping cursor \<and> \<not> is_pinching s
                       \<and> current_time c - last_pinch_time s > PINCH_COOLDOWN
                    then [return_home_ready] else [])" and
    fevs: "fevs = (if \<not> is_flicking s \<and> current_time c - last_flick_time s > FLICK_COOLDOWN
                    then (case find flick_pose (cursor # others) of
                            None \<Rightarrow> [] | Some h' \<Rightarrow> flick_signal (label h'))
                    else [])" and
    fl: "is_flicking s' = (list_ex flick_pose (cursor # others)
                \<and> (is_flicking s \<or> current_time c - last_flick_time s > FLICK_COOLDOWN))" and
    lt: "last_flick_time s' =
             (if \<not> is_flicking s \<and> current_time c - last_flick_time s > FLICK_COOLDOWN
                 \<and> list_ex flick_pose (cursor # others)
              then current_time c else last_flick_time s)"
    by blast
  have ex: "list_ex flick_pose (cursor # others)"
    using find_None_list_ex [of flick_pose "cursor # others"] assms(6) by simp
  have "filter is_flick_event evs = fevs"
    unfolding evs by (rule flick_events_of_iteration [OF pevs fevs])
  also have "fevs = flick_signal (label h)"
    using fevs assms(4-6) by simp
  finally have sig: "filter is_flick_event evs = flick_signal (label h)" .
  show ?thesis
    using lb sig fl lt ex assms(4,5)
    by (auto simp add: flick_signal_def flick_pose_def flick_distance_def FLICK_THRESHOLD_def
        FLICK_COOLDOWN_def)
qed

theorem flick_direction_witness:
  "success (seen [synthetic_hand 0.3 0.3 0.5 ''Right'', synthetic_hand 0.3 0.05 0.5 ''Left''] 100)
   \<and> multi_hand_landmarks
        (seen [synthetic_hand 0.3 0.3 0.5 ''Right'', synthetic_hand 0.3 0.05 0.5 ''Left''] 100)
       = synthetic_hand 0.3 0.3 0.5 ''Right'' # [synthetic_hand 0.3 0.05 0.5 ''Left'']
   \<and> filter_ok (filter_index VideoWorker_init)
   \<and> \<not> is_flicking VideoWorker_init
   \<and> 100 - last_flick_time VideoWorker_init > FLICK_COOLDOWN
   \<and> find flick_pose [synthetic_hand 0.3 0.3 0.5 ''Right'', synthetic_hand 0.3 0.05 0.5 ''Left'']
       = Some (synthetic_hand 0.3 0.05 0.5 ''Left'')
   \<and> (\<exists>s' evs. loop_body VideoWorker_init
          (seen [synthetic_hand 0.3 0.3 0.5 ''Right'', synthetic_hand 0.3 0.05 0.5 ''Left''] 100)
          = Inr (s', evs)
        \<and> filter is_flick_event evs = [page_flick_ready (- 1)])"
  using flick_direction
    [of "seen [synthetic_hand 0.3 0.3 0.5 ''Right'', synthetic_hand 0.3 0.05 0.5 ''Left''] 100"
        "synthetic_hand 0.3 0.3 0.5 ''Right''" "[synthetic_hand 0.3 0.05 0.5 ''Left'']"
        VideoWorker_init "synthetic_hand 0.3 0.05 0.5 ''Left''"]
  by (auto simp add: seen_def VideoWorker_init_def flick_pose_def FLICK_THRESHOLD_def
      FLICK_COOLDOWN_def)

lemma gesture_not_in_flick_events:
  "fevs = (if b then (case fo of None \<Rightarrow> [] | Some h' \<Rightarrow> flick_signal (label h')) else []) \<Longrightarrow>
   gesture_ready g \<notin> set fevs"
  by (cases b; cases fo) (simp_all add: flick_signal_def)

text \<open>
  C5. On every iteration with a hand present the grasp value reported is computed from the
  mean of the four Euclidean distances from the wrist to the index, middle, ring and pinky
  fingertips: \<open>True\<close> is reported exactly when the mean is strictly below 0.20, and at a mean
  of exactly 0.20 the report is \<open>False\<close>.
\<close>

theorem grasp_classifier:
  assumes "success c" and "multi_hand_landmarks c = cursor # others"
    and "filter_ok (filter_index s)"
  shows "\<exists>s' evs. loop_body s c = Inr (s', evs)
     \<and> average_distance cursor =
         (sqrt ((x (landmark cursor INDEX_FINGER_TIP) - x (landmark cursor WRIST))\<^sup>2
                + (y (landmark cursor INDEX_FINGER_TIP) - y (landmark cursor WRIST))\<^sup>2
                + (z (landmark cursor INDEX_FINGER_TIP) - z (landmark cursor WRIST))\<^sup>2)
          + sqrt ((x (landmark cursor MIDDLE_FINGER_TIP) - x (landmark cursor WRIST))\<^sup>2
                + (y (landmark cursor MIDDLE_FINGER_TIP) - y (landmark cursor WRIST))\<^sup>2
                + (z (landmark cursor MIDDLE_FINGER_TIP) - z (landmark cursor WRIST))\<^sup>2)
          + sqrt ((x (landmark cursor RING_FINGER_TIP) - x (landmark cursor WRIST))\<^sup>2
                + (y (landmark cursor RING_FINGER_TIP) - y (landmark cursor WRIST))\<^sup>2
                + (z (landmark cursor RING_FINGER_TIP) - z (landmark cursor WRIST))\<^sup>2)
          + sqrt ((x (landmark cursor PINKY_TIP) - x (landmark cursor WRIST))\<^sup>2
                + (y (landmark cursor PINKY_TIP) - y (landmark cursor WRIST))\<^sup>2
                + (z (landmark cursor PINKY_TIP) - z (landmark cursor WRIST))\<^sup>2)) / 4
     \<and> is_grasping cursor = (average_distance cursor < 0.20)
     \<and> (gesture_ready True \<in> set evs) = (average_distance cursor < 0.20)
     \<and> (gesture_ready False \<in> set evs) = (\<not> average_distance cursor < 0.20)
     \<and> (average_distance cursor = 0.20 \<longrightarrow> gesture_ready False \<in> set evs)"
proof -
  from loop_body_hands_summary [OF assms]
  obtain s' evs xf yf pevs fevs where
    lb: "loop_body s c = Inr (s', evs)" and
    evs: "evs = [gesture_ready (is_grasping cursor), coords_ready xf yf] @ pevs @ fevs @ [image_ready]" and
    pevs: "pevs = (if pinch_pose cursor \<and> \<not> is_grasping cursor \<and> \<not> is_pinching s
                       \<and> current_time c - last_pinch_time s > PINCH_COOLDOWN
                    then [return_home_ready] else [])" and
    fevs: "fevs = (if \<not> is_flicking s \<and> current_time c - last_flick_time s > FLICK_COOLDOWN
                    then (case find flick_pose (cursor # others) of
                            None \<Rightarrow> [] | Some h' \<Rightarrow> flick_signal (label h'))
                    else [])"
    by blast
  have no_p: "gesture_ready b \<notin> set pevs" for b
    by (simp add: pevs)
  have no_f: "gesture_ready b \<notin> set fevs" for b
    by (rule gesture_not_in_flick_events [OF fevs])
  have rep: "(gesture_ready b \<in> set evs) = (b = is_grasping cursor)" for b
    unfolding evs using no_p no_f by auto
  have g: "is_grasping cursor = (average_distance cursor < 0.20)"
    by (simp add: is_grasping_def GRASP_THRESHOLD_def)
  have avg: "average_distance cursor =
         (sqrt ((x (landmark cursor INDEX_FINGER_TIP) - x (landmark cursor WRIST))\<^sup>2
                + (y (landmark cursor INDEX_FINGER_TIP) - y (landmark cursor WRIST))\<^sup>2
                + (z (landmark cursor INDEX_FINGER_TIP) - z (landmark cursor WRIST))\<^sup>2)
          + sqrt ((x (landmark cursor MIDDLE_FINGER_TIP) - x (landmark cursor WRIST))\<^sup>2
                + (y (landmark cursor MIDDLE_FINGER_TIP) - y (landmark cursor WRIST))\<^sup>2
                + (z (landmark cursor MIDDLE_FINGER_TIP) - z (landmark cursor WRIST))\<^sup>2)
          + sqrt ((x (landmark cursor RING_FINGER_TIP) - x (landmark cursor WRIST))\<^sup>2
                + (y (landmark cursor RING_FINGER_TIP) - y (landmark cursor WRIST))\<^sup>2
                + (z (landmark cursor RING_FINGER_TIP) - z (landmark cursor WRIST))\<^sup>2)
          + sqrt ((x (landmark cursor PINKY_TIP) - x (landmark cursor WRIST))\<^sup>2
                + (y (landmark cursor PINKY_TIP) - y (landmark cursor WRIST))\<^sup>2
                + (z (landmark cursor PINKY_TIP) - z (landmark cursor WRIST))\<^sup>2)) / 4"
    by (simp only: average_distance_unfold distance3_def)
  have t: "(gesture_ready True \<in> set evs) = (average_distance cursor < 0.20)"
    and f: "(gesture_ready False \<in> set evs) = (\<not> average_distance cursor < 0.20)"
    using rep [of True] rep [of False] g by auto
  from f have b: "average_distance cursor = 0.20 \<longrightarrow> gesture_ready False \<in> set evs"
    by simp
  from lb avg g t f b show ?thesis by blast
qed

theorem grasp_classifier_witness:
  "success (seen [synthetic_hand 0.2 0.2 0.2 ''Right''] 100)
   \<and> multi_hand_landmarks (seen [synthetic_hand 0.2 0.2 0.2 ''Right''] 100)
       = synthetic_hand 0.2 0.2 0.2 ''Right'' # []
   \<and> filter_ok (filter_index VideoWorker_init)
   \<and> average_distance (synthetic_hand 0.2 0.2 0.2 ''Right'') = 0.20
   \<and> (\<exists>s' evs. loop_body VideoWorker_init (seen [synthetic_hand 0.2 0.2 0.2 ''Right''] 100)
                  = Inr (s', evs)
        \<and> gesture_ready False \<in> set evs \<and> gesture_ready True \<notin> set evs)"
  using grasp_classifier
    [of "seen [synthetic_hand 0.2 0.2 0.2 ''Right''] 100" "synthetic_hand 0.2 0.2 0.2 ''Right''"
        "[]" VideoWorker_init]
  by (auto simp add: seen_def VideoWorker_init_def)

text \<open>
  C10. The flick fires on an iteration whose cursor hand is grasping: with the classifier
  Idle, the cooldown elapsed and a first flick-pose hand labelled Right or Left, the grasp
  is reported as \<open>True\<close>, the flick signal of that hand is emitted, and no Pinch-Confirm is.
  The witness below is such a frame.
\<close>

theorem flick_ignores_grasp:
  assumes "success c" and "multi_hand_landmarks c = cursor # others"
    and "filter_ok (filter_index s)"
    and "is_grasping cursor"
    and "\<not> is_flicking s" and "current_time c - last_flick_time s > FLICK_COOLDOWN"
    and "find flick_pose (cursor # others) = Some h"
    and "label h = ''Right'' \<or> label h = ''Left''"
  shows "\<exists>s' evs. loop_body s c = Inr (s', evs)
     \<and> gesture_ready True \<in> set evs
     \<and> flick_fired evs
     \<and> filter is_flick_event evs = flick_signal (label h)
     \<and> return_home_ready \<notin> set evs"
proof -
  from loop_body_hands_summary [OF assms(1-3)]
  obtain s' evs xf yf pevs fevs where
    lb: "loop_body s c = Inr (s', evs)" and
    evs: "evs = [gesture_ready (is_grasping cursor), coords_ready xf yf] @ pevs @ fevs @ [image_ready]" and
    pevs: "pevs = (if pinch_pose cursor \<and> \<not> is_grasping cursor \<and> \<not> is_pinching s
                       \<and> current_time c - last_pinch_time s > PINCH_COOLDOWN
                    then [return_home_ready] else [])" and
    fevs: "fevs = (if \<not> is_flicking s \<and> current_time c - last_flick_time s > FLICK_COOLDOWN
                    then (case find flick_pose (cursor # others) of
                            None \<Rightarrow> [] | Some h' \<Rightarrow> flick_signal (label h'))
                    else [])"
    by blast
  have "filter is_flick_event evs = fevs"
    unfolding evs by (rule flick_events_of_iteration [OF pevs fevs])
  also have "fevs = flick_signal (label h)"
    using fevs assms(5-7) by simp
  finally have sig: "filter is_flick_event evs = flick_signal (label h)" .
  have "filter is_flick_event evs \<noteq> []"
    unfolding sig using assms(8) by (auto simp add: flick_signal_def)
  then have fired: "flick_fired evs"
    by (simp add: flick_fired_def list_ex_iff filter_empty_conv)
  have g: "gesture_ready True \<in> set evs"
    unfolding evs using assms(4) by simp
  have "pevs = []" using pevs assms(4) by simp
  have "(return_home_ready \<in> set evs) = (return_home_ready \<in> set pevs)"
    unfolding evs by (rule return_home_in_events [OF fevs])
  with \<open>pevs = []\<close> have np: "return_home_ready \<notin> set evs" by simp
  from lb g fired sig np show ?thesis by blast
qed

theorem flick_ignores_grasp_witness:
  "success (seen [synthetic_hand 0.01 0.05 0.1 ''Right''] 100)
   \<and> multi_hand_landmarks (seen [synthetic_hand 0.01 0.05 0.1 ''Right''] 100)
       = synthetic_hand 0.01 0.05 0.1 ''Right'' # []
   \<and> filter_ok (filter_index VideoWorker_init)
   \<and> is_grasping (synthetic_hand 0.01 0.05 0.1 ''Right'')
   \<and> \<not> is_flicking VideoWorker_init
   \<and> 100 - last_flick_time VideoWorker_init > FLICK_COOLDOWN
   \<and> find flick_pose [synthetic_hand 0.01 0.05 0.1 ''Right'']
       = Some (synthetic_hand 0.01 0.05 0.1 ''Right'')
   \<and> label (synthetic_hand 0.01 0.05 0.1 ''Right'') = ''Right''
   \<and> (\<exists>s' evs. loop_body VideoWorker_init (seen [synthetic_hand 0.01 0.05 0.1 ''Right''] 100)
                  = Inr (s', evs)
        \<and> gesture_ready True \<in> set evs
        \<and> filter is_flick_event evs = [page_flick_ready 1])"
  using flick_ignores_grasp
    [of "seen [synthetic_hand 0.01 0.05 0.1 ''Right''] 100" "synthetic_hand 0.01 0.05 0.1 ''Right''"
        "[]" VideoWorker_init "synthetic_hand 0.01 0.05 0.1 ''Right''"]
  by (auto simp add: seen_def VideoWorker_init_def flick_pose_def FLICK_THRESHOLD_def
      FLICK_COOLDOWN_def is_grasping_def GRASP_THRESHOLD_def flick_signal_def)

text \<open>
  C9. When the capture device did not open, \<open>run\<close> returns with \<open>running\<close> cleared, no
  iteration executed and nothing emitted, whatever the camera would have delivered. A failed
  read inside the loop changes no state and emits nothing, and the loop goes on with the
  following captures.
\<close>

theorem capture_failures:
  "run s False cs = Inr (s\<lparr>running := False\<rparr>, [])
   \<and> run s True cs = frame_loop s cs
   \<and> (\<not> success c \<longrightarrow> loop_body s c = Inr (s, []))
   \<and> (\<not> success c \<and> running s \<longrightarrow>
        frame_loop s (c # cs) =
          (case frame_loop s cs of
             Inl e \<Rightarrow> Inl e
           | Inr (s', evss) \<Rightarrow> Inr (s', [] # evss)))"
  by (simp add: run_def loop_body_def)

theorem capture_failures_witness:
  "\<not> success read_failure \<and> running VideoWorker_init
   \<and> run VideoWorker_init False [seen [synthetic_hand 0.01 0.05 0.5 ''Right''] 100]
       = Inr (VideoWorker_init\<lparr>running := False\<rparr>, [])
   \<and> loop_body VideoWorker_init read_failure = Inr (VideoWorker_init, [])
   \<and> run VideoWorker_init True [read_failure, seen [] 100]
       = Inr (VideoWorker_init\<lparr>running := False\<rparr>, [[], [image_ready]])"
  using capture_failures [of VideoWorker_init "[seen [] 100]" read_failure]
  by (simp add: run_def eval_simps)

section \<open>Sequences of iterations\<close>

lemma pinch_fired_iteration:
  "pevs = (if a then [return_home_ready] else []) \<Longrightarrow>
   fevs = (if b then (case fo of None \<Rightarrow> [] | Some h' \<Rightarrow> flick_signal (label h')) else []) \<Longrightarrow>
   pinch_fired ([gesture_ready g, coords_ready xf yf] @ pevs @ fevs @ [image_ready]) = a"
  by (cases a; cases b; cases fo) (simp_all add: pinch_fired_def return_home_not_flick_signal)

lemma flick_fired_filter: "flick_fired evs = (filter is_flick_event evs \<noteq> [])"
  by (simp add: flick_fired_def list_ex_iff filter_empty_conv)

lemma flick_signal_nonempty:
  "(flick_signal l \<noteq> []) = (l = ''Right'' \<or> l = ''Left'')"
  by (simp add: flick_signal_def)

lemma loop_body_step_facts:
  assumes ok: "filter_ok (filter_index s)"
  shows "\<exists>s' evs. loop_body s c = Inr (s', evs)
     \<and> filter_ok (filter_index s') \<and> running s' = running s
     \<and> (pinch_fired evs \<longrightarrow>
          last_pinch_time s' = current_time c
          \<and> current_time c - last_pinch_time s > PINCH_COOLDOWN \<and> is_pinching s')
     \<and> (\<not> pinch_fired evs \<longrightarrow> last_pinch_time s' = last_pinch_time s)
     \<and> (is_pinching s \<and> (pinch_detected c \<or> \<not> success c) \<longrightarrow>
          \<not> pinch_fired evs \<and> is_pinching s')
     \<and> (flick_fired evs \<longrightarrow>
          last_flick_time s' = current_time c
          \<and> current_time c - last_flick_time s > FLICK_COOLDOWN \<and> is_flicking s')
     \<and> last_flick_time s \<le> last_flick_time s'
     \<and> (is_flicking s \<and> (flick_detected c \<or> \<not> success c) \<longrightarrow>
          \<not> flick_fired evs \<and> is_flicking s')
     \<and> length (filter is_flick_event evs) \<le> 1"
proof (cases "success c")
  case False
  then have "loop_body s c = Inr (s, [])" by (rule loop_body_no_read)
  with ok False show ?thesis
    by (simp add: pinch_fired_def flick_fired_def)
next
  case True
  show ?thesis
  proof (cases "multi_hand_landmarks c")
    case Nil
    from loop_body_no_hand [OF True Nil]
    have "loop_body s c = Inr (s\<lparr>is_pinching := False, is_flicking := False\<rparr>, [image_ready])" .
    with ok True Nil show ?thesis
      by (simp add: pinch_fired_def flick_fired_def pinch_detected_def flick_detected_def)
  next
    case (Cons h hs)
    let ?t = "current_time c"
    let ?a = "pinch_pose h \<and> \<not> is_grasping h \<and> \<not> is_pinching s
                \<and> ?t - last_pinch_time s > PINCH_COOLDOWN"
    let ?b = "\<not> is_flicking s \<and> ?t - last_flick_time s > FLICK_COOLDOWN"
    from loop_body_hands_summary [OF True Cons ok] show ?thesis
    proof (elim exE conjE)
    fix s' evs xf yf pevs fevs
    assume
      lb: "loop_body s c = Inr (s', evs)" and
      evs: "evs = [gesture_ready (is_grasping h), coords_ready xf yf] @ pevs @ fevs @ [image_ready]" and
      pevs: "pevs = (if ?a then [return_home_ready] else [])" and
      fevs: "fevs = (if ?b then (case find flick_pose (h # hs) of
                            None \<Rightarrow> [] | Some h' \<Rightarrow> flick_signal (label h'))
                    else [])" and
      ok': "filter_ok (filter_index s')" and
      run: "running s' = running s" and
      pin: "is_pinching s' = (pinch_pose h \<and> (is_pinching s \<or> pevs \<noteq> []))" and
      pt: "last_pinch_time s' = (if pevs \<noteq> [] then ?t else last_pinch_time s)" and
      fl: "is_flicking s' = (list_ex flick_pose (h # hs)
                \<and> (is_flicking s \<or> ?t - last_flick_time s > FLICK_COOLDOWN))" and
      ft: "last_flick_time s' =
             (if \<not> is_flicking s \<and> ?t - last_flick_time s > FLICK_COOLDOWN
                 \<and> list_ex flick_pose (h # hs)
              then ?t else last_flick_time s)"
    have pf: "pinch_fired evs = ?a"
      unfolding evs by (rule pinch_fired_iteration [OF pevs fevs])
    have pne: "(pevs \<noteq> []) = ?a" by (simp add: pevs)
    have ff: "filter is_flick_event evs = fevs"
      unfolding evs by (rule flick_events_of_iteration [OF pevs fevs])
    have fired_b: "flick_fired evs \<Longrightarrow> ?b \<and> list_ex flick_pose (h # hs)"
      unfolding flick_fired_filter ff fevs
      using find_None_list_ex [of flick_pose "h # hs"]
      by (cases ?b; cases "find flick_pose (h # hs)") simp_all
    have len: "length (filter is_flick_event evs) \<le> 1"
      unfolding ff fevs
      by (cases ?b; cases "find flick_pose (h # hs)") (simp_all add: flick_signal_def)
    have pd: "pinch_detected c = pinch_pose h"
      by (simp add: pinch_detected_def True Cons)
    have fd: "flick_detected c = list_ex flick_pose (h # hs)"
      by (simp add: flick_detected_def True Cons)
    have c1: "pinch_fired evs \<longrightarrow>
          last_pinch_time s' = ?t \<and> ?t - last_pinch_time s > PINCH_COOLDOWN \<and> is_pinching s'"
      using pf pne pin pt by simp
    have c2: "\<not> pinch_fired evs \<longrightarrow> last_pinch_time s' = last_pinch_time s"
      using pf pne pt by simp
    have c3: "is_pinching s \<and> (pinch_detected c \<or> \<not> success c) \<longrightarrow>
          \<not> pinch_fired evs \<and> is_pinching s'"
      using pf pin pd True by simp
    have c4: "flick_fired evs \<longrightarrow>
          last_flick_time s' = ?t \<and> ?t - last_flick_time s > FLICK_COOLDOWN \<and> is_flicking s'"
      using fired_b fl ft by auto
    have c5: "last_flick_time s \<le> last_flick_time s'"
      using ft by (simp add: FLICK_COOLDOWN_def)
    have c6: "is_flicking s \<and> (flick_detected c \<or> \<not> success c) \<longrightarrow>
          \<not> flick_fired evs \<and> is_flicking s'"
      using fired_b fl fd True by auto
    from lb ok' run c1 c2 c3 c4 c5 c6 len show ?thesis by blast
    qed
  qed
qed

lemma frame_loop_spacing:
  assumes "filter_ok (filter_index s)" and "running s"
    and "bp \<le> last_pinch_time s" and "bf \<le> last_flick_time s"
  shows "\<exists>s' evss. frame_loop s cs = Inr (s', evss) \<and> length evss = length cs
     \<and> successively (\<lambda>a b. b - a > PINCH_COOLDOWN) (bp # pinch_fire_times cs evss)
     \<and> successively (\<lambda>a b. b - a > FLICK_COOLDOWN) (bf # flick_fire_times cs evss)
     \<and> (\<forall>evs\<in>set evss. length (filter is_flick_event evs) \<le> 1)"
  using assms
proof (induction cs arbitrary: s bp bf)
  case Nil
  then show ?case by simp
next
  case (Cons c cs)
  from loop_body_step_facts [OF Cons.prems(1), of c]
  obtain s1 evs where
    lb: "loop_body s c = Inr (s1, evs)" and
    ok1: "filter_ok (filter_index s1)" and
    run1: "running s1 = running s" and
    pf: "pinch_fired evs \<longrightarrow>
          last_pinch_time s1 = current_time c
          \<and> current_time c - last_pinch_time s > PINCH_COOLDOWN \<and> is_pinching s1" and
    pn: "\<not> pinch_fired evs \<longrightarrow> last_pinch_time s1 = last_pinch_time s" and
    ff: "flick_fired evs \<longrightarrow>
          last_flick_time s1 = current_time c
          \<and> current_time c - last_flick_time s > FLICK_COOLDOWN \<and> is_flicking s1" and
    fm: "last_flick_time s \<le> last_flick_time s1" and
    len: "length (filter is_flick_event evs) \<le> 1"
    by (elim exE conjE) (rule that)
  let ?bp = "if pinch_fired evs then current_time c else bp"
  let ?bf = "if flick_fired evs then current_time c else bf"
  have bp1: "?bp \<le> last_pinch_time s1"
    using pf pn Cons.prems(3) by (cases "pinch_fired evs") simp_all
  have bf1: "?bf \<le> last_flick_time s1"
    using ff fm Cons.prems(4) by (cases "flick_fired evs") simp_all
  from Cons.prems(2) run1 have r1: "running s1" by simp
  from Cons.IH [OF ok1 r1 bp1 bf1]
  obtain s' evss where
    fl: "frame_loop s1 cs = Inr (s', evss)" and
    le: "length evss = length cs" and
    sp: "successively (\<lambda>a b. b - a > PINCH_COOLDOWN) (?bp # pinch_fire_times cs evss)" and
    sf: "successively (\<lambda>a b. b - a > FLICK_COOLDOWN) (?bf # flick_fire_times cs evss)" and
    on: "\<forall>evs\<in>set evss. length (filter is_flick_event evs) \<le> 1"
    by (elim exE conjE) (rule that)
  have res: "frame_loop s (c # cs) = Inr (s', evs # evss)"
    using Cons.prems(2) lb fl by simp
  have sp': "successively (\<lambda>a b. b - a > PINCH_COOLDOWN) (bp # pinch_fire_times (c # cs) (evs # evss))"
  proof (cases "pinch_fired evs")
    case True
    with pf Cons.prems(3) have "current_time c - bp > PINCH_COOLDOWN" by simp
    with True sp show ?thesis by simp
  next
    case False
    with sp show ?thesis by simp
  qed
  have sf': "successively (\<lambda>a b. b - a > FLICK_COOLDOWN) (bf # flick_fire_times (c # cs) (evs # evss))"
  proof (cases "flick_fired evs")
    case True
    with ff Cons.prems(4) have "current_time c - bf > FLICK_COOLDOWN" by simp
    with True sf show ?thesis by simp
  next
    case False
    with sf show ?thesis by simp
  qed
  from res le sp' sf' on len show ?case by simp
qed

lemma successively_ConsD: "successively P (b # xs) \<Longrightarrow> successively P xs"
  by (cases xs) simp_all

lemma pinch_held_no_fire:
  assumes "filter_ok (filter_index s)" and "is_pinching s"
    and "\<forall>c\<in>set cs. pinch_detected c \<or> \<not> success c"
    and "frame_loop s cs = Inr (s', evss)"
  shows "\<forall>e\<in>set evss. \<not> pinch_fired e"
  using assms
proof (induction cs arbitrary: s evss)
  case Nil
  then show ?case by simp
next
  case (Cons c cs)
  show ?case
  proof (cases "running s")
    case False
    with Cons.prems(4) show ?thesis by simp
  next
    case True
    from loop_body_step_facts [OF Cons.prems(1), of c]
    obtain s1 evs where
      lb: "loop_body s c = Inr (s1, evs)" and
      ok1: "filter_ok (filter_index s1)" and
      held: "is_pinching s \<and> (pinch_detected c \<or> \<not> success c) \<longrightarrow>
          \<not> pinch_fired evs \<and> is_pinching s1"
      by (elim exE conjE) (rule that)
    from held Cons.prems(2,3) have nf: "\<not> pinch_fired evs" and p1: "is_pinching s1" by simp_all
    from Cons.prems(4) True lb obtain evss1 where
      fl: "frame_loop s1 cs = Inr (s', evss1)" and e: "evss = evs # evss1"
      by (auto split: sum.splits)
    from Cons.prems(3) have "\<forall>c\<in>set cs. pinch_detected c \<or> \<not> success c" by simp
    from Cons.IH [OF ok1 p1 this fl] nf e show ?thesis by simp
  qed
qed

lemma flick_held_no_fire:
  assumes "filter_ok (filter_index s)" and "is_flicking s"
    and "\<forall>c\<in>set cs. flick_detected c \<or> \<not> success c"
    and "frame_loop s cs = Inr (s', evss)"
  shows "\<forall>e\<in>set evss. \<not> flick_fired e"
  using assms
proof (induction cs arbitrary: s evss)
  case Nil
  then show ?case by simp
next
  case (Cons c cs)
  show ?case
  proof (cases "running s")
    case False
    with Cons.prems(4) show ?thesis by simp
  next
    case True
    from loop_body_step_facts [OF Cons.prems(1), of c]
    obtain s1 evs where
      lb: "loop_body s c = Inr (s1, evs)" and
      ok1: "filter_ok (filter_index s1)" and
      held: "is_flicking s \<and> (flick_detected c \<or> \<not> success c) \<longrightarrow>
          \<not> flick_fired evs \<and> is_flicking s1"
      by (elim exE conjE) (rule that)
    from held Cons.prems(2,3) have nf: "\<not> flick_fired evs" and p1: "is_flicking s1" by simp_all
    from Cons.prems(4) True lb obtain evss1 where
      fl: "frame_loop s1 cs = Inr (s', evss1)" and e: "evss = evs # evss1"
      by (auto split: sum.splits)
    from Cons.prems(3) have "\<forall>c\<in>set cs. flick_detected c \<or> \<not> success c" by simp
    from Cons.IH [OF ok1 p1 this fl] nf e show ?thesis by simp
  qed
qed

lemma frame_loop_ConsD:
  assumes "running s" and "frame_loop s (c # cs) = Inr (s', evss)"
  shows "\<exists>s1 evs evss1. loop_body s c = Inr (s1, evs) \<and> frame_loop s1 cs = Inr (s', evss1)
           \<and> evss = evs # evss1"
  using assms by (auto split: sum.splits)

lemma loop_body_fire_iff:
  assumes ok: "filter_ok (filter_index s)"
  shows "\<exists>s' evs. loop_body s c = Inr (s', evs)
     \<and> pinch_fired evs =
         (pinch_detected c \<and> \<not> cursor_grasping c \<and> \<not> is_pinching s
          \<and> current_time c - last_pinch_time s > PINCH_COOLDOWN)
     \<and> flick_fired evs =
         (flick_detected c \<and> first_flick_labelled c \<and> \<not> is_flicking s
          \<and> current_time c - last_flick_time s > FLICK_COOLDOWN)"
proof (cases "success c")
  case False
  then have "loop_body s c = Inr (s, [])" by (rule loop_body_no_read)
  with False show ?thesis
    by (simp add: pinch_fired_def flick_fired_def pinch_detected_def flick_detected_def)
next
  case True
  show ?thesis
  proof (cases "multi_hand_landmarks c")
    case Nil
    from loop_body_no_hand [OF True Nil] Nil show ?thesis
      by (simp add: pinch_fired_def flick_fired_def pinch_detected_def flick_detected_def)
  next
    case (Cons h hs)
    let ?t = "current_time c"
    let ?a = "pinch_pose h \<and> \<not> is_grasping h \<and> \<not> is_pinching s
                \<and> ?t - last_pinch_time s > PINCH_COOLDOWN"
    let ?b = "\<not> is_flicking s \<and> ?t - last_flick_time s > FLICK_COOLDOWN"
    from loop_body_hands_summary [OF True Cons ok]
    obtain s' evs xf yf pevs fevs where
      lb: "loop_body s c = Inr (s', evs)" and
      evs: "evs = [gesture_ready (is_grasping h), coords_ready xf yf] @ pevs @ fevs @ [image_ready]" and
      pevs: "pevs = (if ?a then [return_home_ready] else [])" and
      fevs: "fevs = (if ?b then (case find flick_pose (h # hs) of
                            None \<Rightarrow> [] | Some h' \<Rightarrow> flick_signal (label h'))
                    else [])"
      by (elim exE conjE) (rule that)
    have pf: "pinch_fired evs = ?a"
      unfolding evs by (rule pinch_fired_iteration [OF pevs fevs])
    have "filter is_flick_event evs = fevs"
      unfolding evs by (rule flick_events_of_iteration [OF pevs fevs])
    then have "flick_fired evs = (fevs \<noteq> [])"
      by (simp add: flick_fired_filter)
    also have "\<dots> = (?b \<and> (case find flick_pose (h # hs) of
                None \<Rightarrow> False
              | Some h' \<Rightarrow> label h' = ''Right'' \<or> label h' = ''Left''))"
      unfolding fevs
      by (cases "is_flicking s"; cases "?t - last_flick_time s > FLICK_COOLDOWN";
          cases "find flick_pose (h # hs)")
         (simp_all add: flick_signal_nonempty)
    finally have ff: "flick_fired evs = (?b \<and> first_flick_labelled c)"
      by (simp add: first_flick_labelled_def Cons)
    have lab: "first_flick_labelled c \<Longrightarrow> flick_detected c"
      using find_None_list_ex [of flick_pose "h # hs"]
      by (cases "find flick_pose (h # hs)")
         (simp_all add: first_flick_labelled_def flick_detected_def True Cons)
    have pd: "pinch_detected c = pinch_pose h"
      by (simp add: pinch_detected_def True Cons)
    have cg: "cursor_grasping c = is_grasping h"
      by (simp add: cursor_grasping_def Cons)
    have p: "pinch_fired evs =
         (pinch_detected c \<and> \<not> cursor_grasping c \<and> \<not> is_pinching s
          \<and> ?t - last_pinch_time s > PINCH_COOLDOWN)"
      unfolding pf pd cg ..
    have f: "flick_fired evs =
         (flick_detected c \<and> first_flick_labelled c \<and> \<not> is_flicking s
          \<and> ?t - last_flick_time s > FLICK_COOLDOWN)"
      unfolding ff using lab by blast
    from lb p f show ?thesis by blast
  qed
qed

text \<open>Every iteration of a run, against the state the captures before it lead to.\<close>

lemma frame_loop_fire_iff:
  assumes "filter_ok (filter_index s)" and "running s"
    and "frame_loop s cs = Inr (s', evss)" and "cs = pre @ c # post"
  shows "\<exists>sp evsp. frame_loop s pre = Inr (sp, evsp) \<and> length evsp = length pre
     \<and> pinch_fired (evss ! length pre) =
         (pinch_detected c \<and> \<not> cursor_grasping c \<and> \<not> is_pinching sp
          \<and> current_time c - last_pinch_time sp > PINCH_COOLDOWN)
     \<and> flick_fired (evss ! length pre) =
         (flick_detected c \<and> first_flick_labelled c \<and> \<not> is_flicking sp
          \<and> current_time c - last_flick_time sp > FLICK_COOLDOWN)"
  using assms
proof (induction pre arbitrary: s cs evss)
  case Nil
  then have fl: "frame_loop s (c # post) = Inr (s', evss)" by simp
  from frame_loop_ConsD [OF Nil.prems(2) fl]
  obtain s1 evs evss1 where
    lb: "loop_body s c = Inr (s1, evs)" and e: "evss = evs # evss1"
    by blast
  from loop_body_fire_iff [OF Nil.prems(1), of c] lb
  have "pinch_fired evs =
         (pinch_detected c \<and> \<not> cursor_grasping c \<and> \<not> is_pinching s
          \<and> current_time c - last_pinch_time s > PINCH_COOLDOWN)"
    and "flick_fired evs =
         (flick_detected c \<and> first_flick_labelled c \<and> \<not> is_flicking s
          \<and> current_time c - last_flick_time s > FLICK_COOLDOWN)"
    by simp_all
  with e show ?case by simp
next
  case (Cons c0 pre)
  then have fl: "frame_loop s (c0 # (pre @ c # post)) = Inr (s', evss)" by simp
  from frame_loop_ConsD [OF Cons.prems(2) fl]
  obtain s1 evs evss1 where
    lb: "loop_body s c0 = Inr (s1, evs)" and
    fl1: "frame_loop s1 (pre @ c # post) = Inr (s', evss1)" and
    e: "evss = evs # evss1"
    by blast
  from loop_body_step_facts [OF Cons.prems(1), of c0] lb
  have ok1: "filter_ok (filter_index s1)" and r1: "running s1 = running s"
    by simp_all
  with Cons.prems(2) have run1: "running s1" by simp
  from Cons.IH [OF ok1 run1 fl1 refl]
  obtain sp evsp where
    flp: "frame_loop s1 pre = Inr (sp, evsp)" and len: "length evsp = length pre" and
    p: "pinch_fired (evss1 ! length pre) =
         (pinch_detected c \<and> \<not> cursor_grasping c \<and> \<not> is_pinching sp
          \<and> current_time c - last_pinch_time sp > PINCH_COOLDOWN)" and
    f: "flick_fired (evss1 ! length pre) =
         (flick_detected c \<and> first_flick_labelled c \<and> \<not> is_flicking sp
          \<and> current_time c - last_flick_time sp > FLICK_COOLDOWN)"
    by (elim exE conjE) (rule that)
  have "frame_loop s (c0 # pre) = Inr (sp, evs # evsp)"
    using Cons.prems(2) lb flp by simp
  with len p f e show ?case by simp
qed

text \<open>
  C6, as amended. Over every sequence of captures the loop returns, with one list of
  signals per capture; two successive Pinch-Confirm fires are more than \<open>PINCH_COOLDOWN\<close>
  apart and two successive Flick fires more than \<open>FLICK_COOLDOWN\<close> apart; after an
  iteration on which a gesture fired, it does not fire again on the following iterations
  for as long as its pose stays detected (failed reads in between change nothing); and
  on every iteration of the run the gesture fires exactly when its pose is detected, the
  classifier is Idle in the state the earlier captures lead to, and the guard passes there:
  more than the cooldown since the last fire, and for Pinch-Confirm a cursor hand that is
  not grasping, for Flick a first pose-showing hand labelled Right or Left.
\<close>

theorem edge_triggered_events:
  assumes "filter_ok (filter_index s)" and "running s"
  shows "\<exists>s' evss. frame_loop s cs = Inr (s', evss) \<and> length evss = length cs
     \<and> successively (\<lambda>a b. b - a > PINCH_COOLDOWN) (pinch_fire_times cs evss)
     \<and> successively (\<lambda>a b. b - a > FLICK_COOLDOWN) (flick_fire_times cs evss)
     \<and> (cs \<noteq> [] \<and> pinch_fired (hd evss)
          \<and> (\<forall>c\<in>set (tl cs). pinch_detected c \<or> \<not> success c)
        \<longrightarrow> (\<forall>e\<in>set (tl evss). \<not> pinch_fired e))
     \<and> (cs \<noteq> [] \<and> flick_fired (hd evss)
          \<and> (\<forall>c\<in>set (tl cs). flick_detected c \<or> \<not> success c)
        \<longrightarrow> (\<forall>e\<in>set (tl evss). \<not> flick_fired e))
     \<and> (\<forall>pre c post. cs = pre @ c # post \<longrightarrow>
          (\<exists>sp evsp. frame_loop s pre = Inr (sp, evsp) \<and> length evsp = length pre
             \<and> pinch_fired (evss ! length pre) =
                 (pinch_detected c \<and> \<not> cursor_grasping c \<and> \<not> is_pinching sp
                  \<and> current_time c - last_pinch_time sp > PINCH_COOLDOWN)
             \<and> flick_fired (evss ! length pre) =
                 (flick_detected c \<and> first_flick_labelled c \<and> \<not> is_flicking sp
                  \<and> current_time c - last_flick_time sp > FLICK_COOLDOWN)))"
proof -
  from frame_loop_spacing [OF assms order_refl order_refl, of cs]
  obtain s' evss where
    fl: "frame_loop s cs = Inr (s', evss)" and
    le: "length evss = length cs" and
    sp: "successively (\<lambda>a b. b - a > PINCH_COOLDOWN) (last_pinch_time s # pinch_fire_times cs evss)" and
    sf: "successively (\<lambda>a b. b - a > FLICK_COOLDOWN) (last_flick_time s # flick_fire_times cs evss)"
    by (elim exE conjE) (simp add: that)
  have heldp: "\<forall>e\<in>set (tl evss). \<not> pinch_fired e"
    if ne: "cs \<noteq> []" and f: "pinch_fired (hd evss)"
      and h: "\<forall>c\<in>set (tl cs). pinch_detected c \<or> \<not> success c"
  proof -
    from ne obtain c cs1 where cs: "cs = c # cs1" by (cases cs) auto
    from frame_loop_ConsD [OF assms(2) fl [unfolded cs]]
    obtain s1 evs evss1 where
      lb: "loop_body s c = Inr (s1, evs)" and fl1: "frame_loop s1 cs1 = Inr (s', evss1)"
      and e: "evss = evs # evss1"
      by blast
    from loop_body_step_facts [OF assms(1), of c] lb
    have ok1: "filter_ok (filter_index s1)" and "pinch_fired evs \<longrightarrow> is_pinching s1"
      by auto
    with f e have p1: "is_pinching s1" by simp
    from h cs have "\<forall>c\<in>set cs1. pinch_detected c \<or> \<not> success c" by simp
    from pinch_held_no_fire [OF ok1 p1 this fl1] e show ?thesis by simp
  qed
  have heldf: "\<forall>e\<in>set (tl evss). \<not> flick_fired e"
    if ne: "cs \<noteq> []" and f: "flick_fired (hd evss)"
      and h: "\<forall>c\<in>set (tl cs). flick_detected c \<or> \<not> success c"
  proof -
    from ne obtain c cs1 where cs: "cs = c # cs1" by (cases cs) auto
    from frame_loop_ConsD [OF assms(2) fl [unfolded cs]]
    obtain s1 evs evss1 where
      lb: "loop_body s c = Inr (s1, evs)" and fl1: "frame_loop s1 cs1 = Inr (s', evss1)"
      and e: "evss = evs # evss1"
      by blast
    from loop_body_step_facts [OF assms(1), of c] lb
    have ok1: "filter_ok (filter_index s1)" and "flick_fired evs \<longrightarrow> is_flicking s1"
      by auto
    with f e have p1: "is_flicking s1" by simp
    from h cs have "\<forall>c\<in>set cs1. flick_detected c \<or> \<not> success c" by simp
    from flick_held_no_fire [OF ok1 p1 this fl1] e show ?thesis by simp
  qed
  have fire: "\<exists>sp evsp. frame_loop s pre = Inr (sp, evsp) \<and> length evsp = length pre
             \<and> pinch_fired (evss ! length pre) =
                 (pinch_detected c \<and> \<not> cursor_grasping c \<and> \<not> is_pinching sp
                  \<and> current_time c - last_pinch_time sp > PINCH_COOLDOWN)
             \<and> flick_fired (evss ! length pre) =
                 (flick_detected c \<and> first_flick_labelled c \<and> \<not> is_flicking sp
                  \<and> current_time c - last_flick_time sp > FLICK_COOLDOWN)"
    if "cs = pre @ c # post" for pre c post
    by (rule frame_loop_fire_iff [OF assms fl that])
  show ?thesis
  proof (intro exI conjI)
    show "frame_loop s cs = Inr (s', evss)" by (rule fl)
    show "length evss = length cs" by (rule le)
    show "successively (\<lambda>a b. b - a > PINCH_COOLDOWN) (pinch_fire_times cs evss)"
      by (rule successively_ConsD [OF sp])
    show "successively (\<lambda>a b. b - a > FLICK_COOLDOWN) (flick_fire_times cs evss)"
      by (rule successively_ConsD [OF sf])
    show "cs \<noteq> [] \<and> pinch_fired (hd evss)
          \<and> (\<forall>c\<in>set (tl cs). pinch_detected c \<or> \<not> success c)
        \<longrightarrow> (\<forall>e\<in>set (tl evss). \<not> pinch_fired e)"
      using heldp by blast
    show "cs \<noteq> [] \<and> flick_fired (hd evss)
          \<and> (\<forall>c\<in>set (tl cs). flick_detected c \<or> \<not> success c)
        \<longrightarrow> (\<forall>e\<in>set (tl evss). \<not> flick_fired e)"
      using heldf by blast
    show "\<forall>pre c post. cs = pre @ c # post \<longrightarrow>
          (\<exists>sp evsp. frame_loop s pre = Inr (sp, evsp) \<and> length evsp = length pre
             \<and> pinch_fired (evss ! length pre) =
                 (pinch_detected c \<and> \<not> cursor_grasping c \<and> \<not> is_pinching sp
                  \<and> current_time c - last_pinch_time sp > PINCH_COOLDOWN)
             \<and> flick_fired (evss ! length pre) =
                 (flick_detected c \<and> first_flick_labelled c \<and> \<not> is_flicking sp
                  \<and> current_time c - last_flick_time sp > FLICK_COOLDOWN))"
      using fire by blast
  qed
qed

lemma find_Some_holds: "find P xs = Some a \<Longrightarrow> P a"
  by (induction xs) (auto split: if_splits)

lemma flick_step_first_hand:
  "flick_step s hs t =
     (case find flick_pose hs of
        None \<Rightarrow> flick_step s [] t
      | Some h \<Rightarrow> flick_step s [h] t)"
proof (cases "find flick_pose hs")
  case None
  then have "\<not> list_ex flick_pose hs" by (simp add: find_None_list_ex)
  with None show ?thesis by (simp add: flick_step_eq)
next
  case (Some h)
  then have "flick_pose h" by (rule find_Some_holds)
  moreover from Some have "list_ex flick_pose hs"
    using find_None_list_ex [of flick_pose hs] by simp
  ultimately show ?thesis using Some by (simp add: flick_step_eq)
qed

text \<open>
  C7. The flick state is one pair for all hands: over every sequence of captures two
  successive flick fires are more than \<open>FLICK_COOLDOWN\<close> apart, no iteration emits more than
  one flick signal however many hands show the pose, and the outcome of the flick step is
  that of the step run on the first hand showing the pose alone (on no hand, if none does).
\<close>

theorem flick_shared_across_hands:
  assumes "filter_ok (filter_index s)" and "running s"
  shows "\<exists>s' evss. frame_loop s cs = Inr (s', evss) \<and> length evss = length cs
     \<and> successively (\<lambda>a b. b - a > FLICK_COOLDOWN) (flick_fire_times cs evss)
     \<and> (\<forall>evs\<in>set evss. length (filter is_flick_event evs) \<le> 1)
     \<and> flick_step s hs t =
         (case find flick_pose hs of
            None \<Rightarrow> flick_step s [] t
          | Some h \<Rightarrow> flick_step s [h] t)"
proof -
  from frame_loop_spacing [OF assms order_refl order_refl, of cs]
  obtain s' evss where
    fl: "frame_loop s cs = Inr (s', evss)" and
    le: "length evss = length cs" and
    sf: "successively (\<lambda>a b. b - a > FLICK_COOLDOWN) (last_flick_time s # flick_fire_times cs evss)" and
    on: "\<forall>evs\<in>set evss. length (filter is_flick_event evs) \<le> 1"
    by (elim exE conjE) (simp add: that)
  from fl le successively_ConsD [OF sf] on flick_step_first_hand [of s hs t]
  show ?thesis by blast
qed

text \<open>
  C2, as amended. An iteration that finds no hand emits only the frame and leaves both
  classifiers Idle, with the times of the last fires unchanged. On the next iteration with
  a hand, Pinch-Confirm fires exactly when the cursor hand shows the pinch pose, is not
  grasping, and more than \<open>PINCH_COOLDOWN\<close> has passed since the last pinch fire; a flick
  signal is emitted exactly when more than \<open>FLICK_COOLDOWN\<close> has passed since the last
  flick fire and the first hand showing the flick pose is labelled Right or Left.
\<close>

theorem hand_loss_keeps_cooldown:
  assumes "success c" and "multi_hand_landmarks c = []"
    and "success c'" and "multi_hand_landmarks c' = cursor # others"
    and "filter_ok (filter_index s)"
  shows "\<exists>s1 s2 evs2. loop_body s c = Inr (s1, [image_ready])
     \<and> \<not> is_pinching s1 \<and> \<not> is_flicking s1
     \<and> last_pinch_time s1 = last_pinch_time s \<and> last_flick_time s1 = last_flick_time s
     \<and> loop_body s1 c' = Inr (s2, evs2)
     \<and> pinch_fired evs2 =
         (pinch_pose cursor \<and> \<not> is_grasping cursor
          \<and> current_time c' - last_pinch_time s > PINCH_COOLDOWN)
     \<and> flick_fired evs2 =
         (current_time c' - last_flick_time s > FLICK_COOLDOWN
          \<and> (case find flick_pose (cursor # others) of
                None \<Rightarrow> False
              | Some h \<Rightarrow> label h = ''Right'' \<or> label h = ''Left''))"
proof -
  let ?s1 = "s\<lparr>is_pinching := False, is_flicking := False\<rparr>"
  let ?t = "current_time c'"
  have lb1: "loop_body s c = Inr (?s1, [image_ready])"
    by (rule loop_body_no_hand [OF assms(1,2)])
  have ok1: "filter_ok (filter_index ?s1)" using assms(5) by simp
  from loop_body_hands_summary [OF assms(3,4) ok1]
  obtain s2 evs2 xf yf pevs fevs where
    lb2: "loop_body ?s1 c' = Inr (s2, evs2)" and
    evs: "evs2 = [gesture_ready (is_grasping cursor), coords_ready xf yf] @ pevs @ fevs @ [image_ready]" and
    pevs: "pevs = (if pinch_pose cursor \<and> \<not> is_grasping cursor \<and> \<not> is_pinching ?s1
                       \<and> ?t - last_pinch_time ?s1 > PINCH_COOLDOWN
                    then [return_home_ready] else [])" and
    fevs: "fevs = (if \<not> is_flicking ?s1 \<and> ?t - last_flick_time ?s1 > FLICK_COOLDOWN
                    then (case find flick_pose (cursor # others) of
                            None \<Rightarrow> [] | Some h' \<Rightarrow> flick_signal (label h'))
                    else [])"
    by (elim exE conjE) (rule that)
  have pf: "pinch_fired evs2 =
         (pinch_pose cursor \<and> \<not> is_grasping cursor \<and> \<not> is_pinching ?s1
          \<and> ?t - last_pinch_time ?s1 > PINCH_COOLDOWN)"
    unfolding evs by (rule pinch_fired_iteration [OF pevs fevs])
  have "filter is_flick_event evs2 = fevs"
    unfolding evs by (rule flick_events_of_iteration [OF pevs fevs])
  then have "flick_fired evs2 = (fevs \<noteq> [])"
    by (simp add: flick_fired_filter)
  also have "\<dots> = (?t - last_flick_time s > FLICK_COOLDOWN
          \<and> (case find flick_pose (cursor # others) of
                None \<Rightarrow> False
              | Some h \<Rightarrow> label h = ''Right'' \<or> label h = ''Left''))"
    unfolding fevs
    by (cases "?t - last_flick_time s > FLICK_COOLDOWN"; cases "find flick_pose (cursor # others)")
       (simp_all add: flick_signal_nonempty)
  finally have ff: "flick_fired evs2 = (?t - last_flick_time s > FLICK_COOLDOWN
          \<and> (case find flick_pose (cursor # others) of
                None \<Rightarrow> False
              | Some h \<Rightarrow> label h = ''Right'' \<or> label h = ''Left''))" .
  from pf have pf': "pinch_fired evs2 =
         (pinch_pose cursor \<and> \<not> is_grasping cursor
          \<and> ?t - last_pinch_time s > PINCH_COOLDOWN)"
    by simp
  have st: "\<not> is_pinching ?s1 \<and> \<not> is_flicking ?s1
     \<and> last_pinch_time ?s1 = last_pinch_time s \<and> last_flick_time ?s1 = last_flick_time s"
    by simp
  from lb1 st lb2 pf' ff show ?thesis by blast
qed

theorem edge_triggered_events_witness:
  "filter_ok (filter_index VideoWorker_init) \<and> running VideoWorker_init
   \<and> map pinch_detected [seen [synthetic_hand 0.01 0.01 0.5 ''Right''] 100.5, seen [synthetic_hand 0.01 0.01 0.5 ''Right''] 102] = [True, True]
   \<and> map flick_detected [seen [synthetic_hand 0.01 0.01 0.5 ''Right''] 100.5, seen [synthetic_hand 0.01 0.01 0.5 ''Right''] 102] = [True, True]
   \<and> \<not> success read_failure
   \<and> (\<exists>s' evss. frame_loop VideoWorker_init
          [seen [synthetic_hand 0.01 0.01 0.5 ''Right''] 100, seen [synthetic_hand 0.01 0.01 0.5 ''Right''] 100.5, read_failure, seen [synthetic_hand 0.01 0.01 0.5 ''Right''] 102] = Inr (s', evss)
        \<and> map pinch_fired evss = [True, False, False, False]
        \<and> map flick_fired evss = [True, False, False, False])
   \<and> (\<exists>s' evss. frame_loop VideoWorker_init
          [seen [synthetic_hand 0.01 0.01 0.5 ''Right''] 100, seen [synthetic_hand 0.3 0.3 0.5 ''Right''] 100.5, seen [synthetic_hand 0.01 0.01 0.5 ''Right''] 102] = Inr (s', evss)
        \<and> pinch_fire_times [seen [synthetic_hand 0.01 0.01 0.5 ''Right''] 100, seen [synthetic_hand 0.3 0.3 0.5 ''Right''] 100.5, seen [synthetic_hand 0.01 0.01 0.5 ''Right''] 102] evss = [100, 102]
        \<and> flick_fire_times [seen [synthetic_hand 0.01 0.01 0.5 ''Right''] 100, seen [synthetic_hand 0.3 0.3 0.5 ''Right''] 100.5, seen [synthetic_hand 0.01 0.01 0.5 ''Right''] 102] evss = [100, 102])
   \<and> [seen [synthetic_hand 0.01 0.01 0.5 ''Right''] 100, seen [synthetic_hand 0.3 0.3 0.5 ''Right''] 100.5, seen [synthetic_hand 0.01 0.01 0.5 ''Right''] 102]
       = [seen [synthetic_hand 0.01 0.01 0.5 ''Right''] 100, seen [synthetic_hand 0.3 0.3 0.5 ''Right''] 100.5] @ seen [synthetic_hand 0.01 0.01 0.5 ''Right''] 102 # []
   \<and> pinch_detected (seen [synthetic_hand 0.01 0.01 0.5 ''Right''] 102)
   \<and> \<not> cursor_grasping (seen [synthetic_hand 0.01 0.01 0.5 ''Right''] 102)
   \<and> flick_detected (seen [synthetic_hand 0.01 0.01 0.5 ''Right''] 102)
   \<and> first_flick_labelled (seen [synthetic_hand 0.01 0.01 0.5 ''Right''] 102)
   \<and> \<not> is_pinching (fst (projr (frame_loop VideoWorker_init
          [seen [synthetic_hand 0.01 0.01 0.5 ''Right''] 100, seen [synthetic_hand 0.3 0.3 0.5 ''Right''] 100.5])))
   \<and> \<not> is_flicking (fst (projr (frame_loop VideoWorker_init
          [seen [synthetic_hand 0.01 0.01 0.5 ''Right''] 100, seen [synthetic_hand 0.3 0.3 0.5 ''Right''] 100.5])))"
  using edge_triggered_events [of VideoWorker_init "[seen [synthetic_hand 0.01 0.01 0.5 ''Right''] 100, seen [synthetic_hand 0.01 0.01 0.5 ''Right''] 100.5, read_failure, seen [synthetic_hand 0.01 0.01 0.5 ''Right''] 102]"]
    edge_triggered_events [of VideoWorker_init "[seen [synthetic_hand 0.01 0.01 0.5 ''Right''] 100, seen [synthetic_hand 0.3 0.3 0.5 ''Right''] 100.5, seen [synthetic_hand 0.01 0.01 0.5 ''Right''] 102]"]
  by (simp add: eval_simps pinch_detected_def flick_detected_def cursor_grasping_def
      first_flick_labelled_def)

text \<open>
  C6 as stated fails in its rising-edge part. Both gestures fire at time 100 and are released
  at 100.1; the pose comes back at 100.2, inside the cooldown, and nothing fires; the pose
  is still held at 101.5 and both gestures fire there, on a frame whose predecessor already
  showed the pose.
\<close>

theorem rising_edge_counterexample:
  "\<not> isl (frame_loop VideoWorker_init
            [seen [synthetic_hand 0.01 0.01 0.5 ''Right''] 100,
             seen [synthetic_hand 0.3 0.3 0.5 ''Right''] 100.1,
             seen [synthetic_hand 0.01 0.01 0.5 ''Right''] 100.2,
             seen [synthetic_hand 0.01 0.01 0.5 ''Right''] 101.5])
   \<and> map pinch_fired (snd (projr (frame_loop VideoWorker_init
            [seen [synthetic_hand 0.01 0.01 0.5 ''Right''] 100,
             seen [synthetic_hand 0.3 0.3 0.5 ''Right''] 100.1,
             seen [synthetic_hand 0.01 0.01 0.5 ''Right''] 100.2,
             seen [synthetic_hand 0.01 0.01 0.5 ''Right''] 101.5])))
       = [True, False, False, True]
   \<and> map flick_fired (snd (projr (frame_loop VideoWorker_init
            [seen [synthetic_hand 0.01 0.01 0.5 ''Right''] 100,
             seen [synthetic_hand 0.3 0.3 0.5 ''Right''] 100.1,
             seen [synthetic_hand 0.01 0.01 0.5 ''Right''] 100.2,
             seen [synthetic_hand 0.01 0.01 0.5 ''Right''] 101.5])))
       = [True, False, False, True]
   \<and> map pinch_detected
            [seen [synthetic_hand 0.01 0.01 0.5 ''Right''] 100,
             seen [synthetic_hand 0.3 0.3 0.5 ''Right''] 100.1,
             seen [synthetic_hand 0.01 0.01 0.5 ''Right''] 100.2,
             seen [synthetic_hand 0.01 0.01 0.5 ''Right''] 101.5]
       = [True, False, True, True]
   \<and> map flick_detected
            [seen [synthetic_hand 0.01 0.01 0.5 ''Right''] 100,
             seen [synthetic_hand 0.3 0.3 0.5 ''Right''] 100.1,
             seen [synthetic_hand 0.01 0.01 0.5 ''Right''] 100.2,
             seen [synthetic_hand 0.01 0.01 0.5 ''Right''] 101.5]
       = [True, False, True, True]"
  by (simp add: eval_simps pinch_detected_def flick_detected_def)

theorem flick_shared_across_hands_witness:
  "filter_ok (filter_index VideoWorker_init) \<and> running VideoWorker_init
   \<and> map flick_pose [synthetic_hand 0.3 0.05 0.5 ''Left'', synthetic_hand 0.3 0.05 0.5 ''Right''] = [True, True]
   \<and> (\<exists>s' evss. frame_loop VideoWorker_init
          [seen [synthetic_hand 0.3 0.05 0.5 ''Left'', synthetic_hand 0.3 0.05 0.5 ''Right''] 100, seen [synthetic_hand 0.3 0.05 0.5 ''Right'', synthetic_hand 0.3 0.05 0.5 ''Left''] 100.5] = Inr (s', evss)
        \<and> map (filter is_flick_event) evss = [[page_flick_ready (- 1)], []])
   \<and> flick_step VideoWorker_init [synthetic_hand 0.3 0.05 0.5 ''Left'', synthetic_hand 0.3 0.05 0.5 ''Right''] 100
       = flick_step VideoWorker_init [synthetic_hand 0.3 0.05 0.5 ''Left''] 100"
  using flick_shared_across_hands [of VideoWorker_init "[seen [synthetic_hand 0.3 0.05 0.5 ''Left'', synthetic_hand 0.3 0.05 0.5 ''Right''] 100, seen [synthetic_hand 0.3 0.05 0.5 ''Right'', synthetic_hand 0.3 0.05 0.5 ''Left''] 100.5]"
      "[synthetic_hand 0.3 0.05 0.5 ''Left'', synthetic_hand 0.3 0.05 0.5 ''Right'']" 100]
  by (simp add: eval_simps)

theorem hand_loss_keeps_cooldown_witness:
  "success (seen [] 100.5) \<and> multi_hand_landmarks (seen [] 100.5) = []
   \<and> success (seen [synthetic_hand 0.01 0.01 0.5 ''Right''] 102)
   \<and> multi_hand_landmarks (seen [synthetic_hand 0.01 0.01 0.5 ''Right''] 102) = synthetic_hand 0.01 0.01 0.5 ''Right'' # []
   \<and> filter_ok (filter_index (VideoWorker_init\<lparr>last_pinch_time := 100, is_pinching := True, last_flick_time := 100, is_flicking := True\<rparr>))
   \<and> (\<exists>s1 s2 evs2.
         loop_body (VideoWorker_init\<lparr>last_pinch_time := 100, is_pinching := True, last_flick_time := 100, is_flicking := True\<rparr>) (seen [] 100.5) = Inr (s1, [image_ready])
       \<and> \<not> is_pinching s1 \<and> \<not> is_flicking s1
       \<and> loop_body s1 (seen [synthetic_hand 0.01 0.01 0.5 ''Right''] 102) = Inr (s2, evs2)
       \<and> pinch_fired evs2 \<and> flick_fired evs2)"
  using hand_loss_keeps_cooldown [of "seen [] 100.5" "seen [synthetic_hand 0.01 0.01 0.5 ''Right''] 102" "synthetic_hand 0.01 0.01 0.5 ''Right''" "[]" "VideoWorker_init\<lparr>last_pinch_time := 100, is_pinching := True, last_flick_time := 100, is_flicking := True\<rparr>"]
  by (auto simp add: seen_def VideoWorker_init_def EMAFilter_init_def filter_ok_def
      pinch_pose_def flick_pose_def is_grasping_def GRASP_THRESHOLD_def PINCH_THRESHOLD_def
      PINCH_COOLDOWN_def FLICK_THRESHOLD_def FLICK_COOLDOWN_def)

text \<open>
  C2 as stated fails: hand loss does not waive the cooldown. Both gestures fire at time
  100, no hand is found at 100.1 (both classifiers are Idle afterwards), and the same
  qualifying hand at 100.2 fires nothing.
\<close>

theorem hand_loss_cooldown_counterexample:
  "\<not> isl (frame_loop VideoWorker_init
            [seen [synthetic_hand 0.01 0.01 0.5 ''Right''] 100, seen [] 100.1, seen [synthetic_hand 0.01 0.01 0.5 ''Right''] 100.2])
   \<and> \<not> is_pinching (fst (projr (frame_loop VideoWorker_init
            [seen [synthetic_hand 0.01 0.01 0.5 ''Right''] 100, seen [] 100.1])))
   \<and> \<not> is_flicking (fst (projr (frame_loop VideoWorker_init
            [seen [synthetic_hand 0.01 0.01 0.5 ''Right''] 100, seen [] 100.1])))
   \<and> pinch_pose (synthetic_hand 0.01 0.01 0.5 ''Right'') \<and> flick_pose (synthetic_hand 0.01 0.01 0.5 ''Right'')
   \<and> \<not> is_grasping (synthetic_hand 0.01 0.01 0.5 ''Right'')
   \<and> map pinch_fired (snd (projr (frame_loop VideoWorker_init
            [seen [synthetic_hand 0.01 0.01 0.5 ''Right''] 100, seen [] 100.1, seen [synthetic_hand 0.01 0.01 0.5 ''Right''] 100.2])))
       = [True, False, False]
   \<and> map flick_fired (snd (projr (frame_loop VideoWorker_init
            [seen [synthetic_hand 0.01 0.01 0.5 ''Right''] 100, seen [] 100.1, seen [synthetic_hand 0.01 0.01 0.5 ''Right''] 100.2])))
       = [True, False, False]"
  by (simp add: eval_simps)

end
